theory Spec2Isabelle
  imports Complex_Main
begin

section \<open>Values exchanged with the node\<close>

text \<open>
  The harness (\<^verbatim>\<open>scripts/stress_test/harness.py\<close>) and the miner simulator
  (\<^verbatim>\<open>scripts/stress_test/miner_simulator.py\<close>) exchange JSON documents with the node.
  A parsed document is a Python value: \<^verbatim>\<open>None\<close>, a bool, an int, a float, a str, a list
  or a dict. A dict keeps its insertion order, so it is an association list. Python
  floats are idealised as reals: the model follows which quantity is stored where, not
  the rounding of each operation.
\<close>

datatype json =
    JNull
  | JBool bool
  | JInt int
  | JFloat real
  | JStr string
  | JList "json list"
  | JObj "(string \<times> json) list"

text \<open>Exceptions carry the text that \<^verbatim>\<open>str(e)\<close> yields.\<close>

datatype py_error =
    NameError string
  | ZeroDivisionError string
  | AttributeError string
  | TypeError string
  | IndexError string
  | KeyError string
  | JSONDecodeError string
  | TransportError string

fun py_str :: "py_error \<Rightarrow> string" where
  "py_str (NameError m) = m"
| "py_str (ZeroDivisionError m) = m"
| "py_str (AttributeError m) = m"
| "py_str (TypeError m) = m"
| "py_str (IndexError m) = m"
| "py_str (KeyError m) = m"
| "py_str (JSONDecodeError m) = m"
| "py_str (TransportError m) = m"

text \<open>Truth value of a parsed document, as \<^verbatim>\<open>if res\<close> and \<^verbatim>\<open>not res\<close> test it.\<close>

fun truthy :: "json \<Rightarrow> bool" where
  "truthy JNull = False"
| "truthy (JBool b) = b"
| "truthy (JInt i) = (i \<noteq> 0)"
| "truthy (JFloat x) = (x \<noteq> 0)"
| "truthy (JStr s) = (s \<noteq> [])"
| "truthy (JList xs) = (xs \<noteq> [])"
| "truthy (JObj kvs) = (kvs \<noteq> [])"

fun type_name :: "json \<Rightarrow> string" where
  "type_name JNull = ''NoneType''"
| "type_name (JBool b) = ''bool''"
| "type_name (JInt i) = ''int''"
| "type_name (JFloat x) = ''float''"
| "type_name (JStr s) = ''str''"
| "type_name (JList xs) = ''list''"
| "type_name (JObj kvs) = ''dict''"

text \<open>
  \<^verbatim>\<open>d.get(key)\<close>: the value under the key, \<^verbatim>\<open>None\<close> when the key is absent, and an
  AttributeError when the receiver is not a dict.
\<close>

definition quoted :: "string \<Rightarrow> string" where
  "quoted s = [CHR 0x27] @ s @ [CHR 0x27]"

definition dquoted :: "string \<Rightarrow> string" where
  "dquoted s = [CHR 0x22] @ s @ [CHR 0x22]"

fun py_get :: "json \<Rightarrow> string \<Rightarrow> py_error + json" where
  "py_get (JObj kvs) k = Inr (case map_of kvs k of None \<Rightarrow> JNull | Some v \<Rightarrow> v)"
| "py_get j k =
     Inl (AttributeError (quoted (type_name j) @ '' object has no attribute '' @ quoted ''get''))"

section \<open>The session outcome and the world a session runs in\<close>

text \<open>
  The \<^verbatim>\<open>stats\<close> dict of \<^verbatim>\<open>run_miner_session\<close>. The keys \<^verbatim>\<open>notes\<close> and
  \<^verbatim>\<open>error\<close> are absent until they are assigned.
\<close>

record stats =
  s_miner_id :: string
  success :: bool
  steps :: "string \<rightharpoonup> real"
  total_time :: real
  retries :: nat
  is_duplicate :: bool
  is_malformed :: bool
  s_notes :: "string option"
  error :: "string option"

text \<open>
  What is posted: a structured document (\<^verbatim>\<open>json=payload\<close>) or a raw string
  (\<^verbatim>\<open>content=payload\<close>).
\<close>

datatype wire = Payload json | RawString string

text \<open>
  An HTTP response: its status, its text, and what \<^verbatim>\<open>resp.json()\<close> yields (the parsed
  body, or the exception the parser raises).
\<close>

record response =
  status_code :: nat
  resp_text :: string
  resp_json :: "py_error + json"

text \<open>
  One call of \<^verbatim>\<open>client.post\<close>: the time it takes, and either the exception it raises
  (timeout, connection error) or the response it returns.
\<close>

record attempt =
  elapsed :: real
  outcome :: "py_error + response"

text \<open>
  The node, seen from one session: the answer to the session's n-th request, given its
  URL and body.
\<close>

type_synonym server = "nat \<Rightarrow> string \<Rightarrow> wire \<Rightarrow> attempt"

text \<open>
  The world of one session: the reading of \<^verbatim>\<open>time.perf_counter()\<close>, the requests sent
  so far, and the arguments of the calls of \<^verbatim>\<open>asyncio.sleep\<close> so far. The clock moves
  while a request is in flight, while the session sleeps and while it waits for the
  gate; computation takes no time.
\<close>

record world =
  perf_counter :: real
  sent :: "(string \<times> wire) list"
  slept :: "nat list"

section \<open>One protocol step with retry\<close>

fun digit_char :: "nat \<Rightarrow> char" where
  "digit_char n = char_of (48 + n)"

function show_nat :: "nat \<Rightarrow> string" where
  "show_nat n = (if n < 10 then [digit_char n] else show_nat (n div 10) @ [digit_char (n mod 10)])"
  by pat_completeness auto
termination
  by (relation "measure id") auto

declare show_nat.simps [simp del]

text \<open>
  \<^verbatim>\<open>_perform_step_with_retry\<close>. The first argument of \<open>retry_loop\<close> is the number of
  iterations of \<^verbatim>\<open>for i in range(max_retries)\<close> still to run, the second the current
  \<^verbatim>\<open>backoff\<close>. The result is what the method returns (\<^verbatim>\<open>None\<close> is \<open>JNull\<close>), with the
  updated \<^verbatim>\<open>stats\<close> and world.
\<close>

fun retry_loop ::
  "server \<Rightarrow> nat \<Rightarrow> nat \<Rightarrow> string \<Rightarrow> string \<Rightarrow> wire \<Rightarrow> stats \<times> world \<Rightarrow> json \<times> stats \<times> world" where
  "retry_loop srv 0 backoff name url payload (st, w) =
     (JNull, st\<lparr>error := Some ''Max retries exceeded (429)''\<rparr>, w)"
| "retry_loop srv (Suc n) backoff name url payload (st, w) =
     (let step_start = perf_counter w;
          a = srv (length (sent w)) url payload;
          w1 = w\<lparr>perf_counter := perf_counter w + elapsed a, sent := sent w @ [(url, payload)]\<rparr>
      in case outcome a of
           Inl e \<Rightarrow> (JNull, st\<lparr>error := Some (py_str e)\<rparr>, w1)
         | Inr resp \<Rightarrow>
             let st1 = st\<lparr>steps := (steps st)(name \<mapsto>
                         (case steps st name of None \<Rightarrow> 0 | Some t \<Rightarrow> t) + (perf_counter w1 - step_start))\<rparr>
             in if status_code resp = 200 then
                  (case resp_json resp of
                     Inl e \<Rightarrow> (JNull, st1\<lparr>error := Some (py_str e)\<rparr>, w1)
                   | Inr j \<Rightarrow> (j, st1, w1))
                else if status_code resp \<in> set [400, 403] then
                  (case resp_json resp of
                     Inl e \<Rightarrow> (JNull, st1\<lparr>error := Some (py_str e)\<rparr>, w1)
                   | Inr j \<Rightarrow> (j, st1, w1))
                else if status_code resp = 429 then
                  retry_loop srv n (backoff * 2) name url payload
                    (st1\<lparr>retries := retries st1 + 1\<rparr>,
                     w1\<lparr>perf_counter := perf_counter w1 + real backoff, slept := slept w1 @ [backoff]\<rparr>)
                else
                  (JNull,
                   st1\<lparr>error := Some (''HTTP '' @ show_nat (status_code resp) @ '': '' @ take 50 (resp_text resp))\<rparr>,
                   w1))"

definition max_retries :: nat where
  "max_retries = 5"

definition base_backoff :: nat where
  "base_backoff = 2"

definition perform_step_with_retry ::
  "server \<Rightarrow> string \<Rightarrow> string \<Rightarrow> wire \<Rightarrow> stats \<times> world \<Rightarrow> json \<times> stats \<times> world" where
  "perform_step_with_retry srv name url payload sw =
     retry_loop srv max_retries base_backoff name url payload sw"


section \<open>The miner simulator\<close>

text \<open>
  Library functions the simulator and the harness call, taken as parameters:
  \<^verbatim>\<open>hashlib.sha256(s.encode()).hexdigest()\<close>, \<^verbatim>\<open>json.dumps(v, sort_keys=True)\<close> and the
  text an f-string gives for a parsed document.
\<close>

record libs =
  sha256_hex :: "string \<Rightarrow> string"
  json_dumps :: "json \<Rightarrow> string"
  py_repr :: "json \<Rightarrow> string"

record arch_profile =
  model :: string
  family :: string
  multiplier :: real

definition ARCH_PROFILES :: "(string \<times> arch_profile) list" where
  "ARCH_PROFILES =
     [(''g4'', \<lparr>model = ''PowerPC G4 (7447A)'', family = ''PowerPC'', multiplier = 5 / 2\<rparr>),
      (''g5'', \<lparr>model = ''PowerPC G5 (970MP)'', family = ''PowerPC'', multiplier = 2\<rparr>),
      (''apple_silicon'', \<lparr>model = ''Apple M2 Max'', family = ''ARM64'', multiplier = 6 / 5\<rparr>),
      (''modern_x86'', \<lparr>model = ''AMD Ryzen 9 7950X'', family = ''x86_64'', multiplier = 1\<rparr>)]"

record simulator =
  arch_key :: string
  profile :: arch_profile
  miner_id :: string
  wallet :: string
  serial :: string
  hostname :: string
  mac_address :: string

text \<open>
  The random draws of one \<^verbatim>\<open>MinerSimulator()\<close>: the archetype chosen, the hex digits of
  the two \<^verbatim>\<open>uuid4()\<close> values, the texts of \<^verbatim>\<open>time.time()\<close> and \<^verbatim>\<open>random.random()\<close>, and
  the six bytes of the MAC address.
\<close>

record sim_draws =
  d_arch :: string
  d_uuid_id :: string
  d_time :: string
  d_random :: string
  d_uuid_serial :: string
  d_mac :: "nat list"

definition hex_digit :: "nat \<Rightarrow> char" where
  "hex_digit n = (if n < 10 then char_of (48 + n) else char_of (87 + n))"

definition hex2 :: "nat \<Rightarrow> string" where
  "hex2 n = (if n < 16 then [CHR ''0'', hex_digit n] else [hex_digit (n div 16 mod 16), hex_digit (n mod 16)])"

definition upper_char :: "char \<Rightarrow> char" where
  "upper_char c = (if 97 \<le> (of_char c :: nat) \<and> (of_char c :: nat) \<le> 122 then char_of ((of_char c :: nat) - 32) else c)"

fun join :: "string \<Rightarrow> string list \<Rightarrow> string" where
  "join sep [] = []"
| "join sep [x] = x"
| "join sep (x # y # ys) = x @ sep @ join sep (y # ys)"

definition generate_wallet :: "libs \<Rightarrow> string \<Rightarrow> string \<Rightarrow> string \<Rightarrow> string" where
  "generate_wallet L mid t r = take 38 (sha256_hex L (mid @ ''-'' @ t @ ''-'' @ r)) @ ''RTC''"

definition init_simulator :: "libs \<Rightarrow> sim_draws \<Rightarrow> string option \<Rightarrow> string option \<Rightarrow> py_error + simulator" where
  "init_simulator L d mid arch =
     (let key = (case arch of Some a \<Rightarrow> if a \<noteq> [] then a else d_arch d | None \<Rightarrow> d_arch d)
      in case map_of ARCH_PROFILES key of
           None \<Rightarrow> Inl (KeyError (quoted key))
         | Some prof \<Rightarrow>
             let unique_suffix = take 8 (d_uuid_id d);
                 the_id = (case mid of Some m \<Rightarrow> if m \<noteq> [] then m else ''sim-'' @ key @ ''-'' @ unique_suffix
                           | None \<Rightarrow> ''sim-'' @ key @ ''-'' @ unique_suffix)
             in Inr \<lparr>arch_key = key, profile = prof, miner_id = the_id,
                     wallet = generate_wallet L the_id (d_time d) (d_random d),
                     serial = ''SN-'' @ map upper_char (take 12 (d_uuid_serial d)),
                     hostname = ''host-'' @ the_id,
                     mac_address = join '':'' (map hex2 (d_mac d))\<rparr>)"

text \<open>
  The random draws of one payload: the values of \<^verbatim>\<open>random.random()\<close> behind the two
  calls of \<^verbatim>\<open>random.uniform\<close> (base latency and variance), the twelve values of
  \<^verbatim>\<open>random.gauss(0, 500)\<close> (by index), the cores and memory chosen, the I/O latency
  and the index \<^verbatim>\<open>random.choice\<close> picks in \<^verbatim>\<open>build_malformed_payload\<close>.
\<close>

datatype corruption = missing_nonce | bad_commitment | wrong_arch | corrupt_json

record payload_draws =
  u_base :: real
  gauss :: "nat \<Rightarrow> real"
  u_variance :: real
  cores :: int
  memory_gb :: int
  io_p95 :: int
  choice_index :: nat

text \<open>
  \<^verbatim>\<open>random.uniform(a, b)\<close> is \<^verbatim>\<open>a + (b - a) * random.random()\<close>, with
  \<^verbatim>\<open>random.random()\<close> in [0, 1).
\<close>

definition uniform :: "real \<Rightarrow> real \<Rightarrow> real \<Rightarrow> real" where
  "uniform a b u = a + (b - a) * u"

definition base_time :: "payload_draws \<Rightarrow> real" where
  "base_time d = uniform 20000 30000 (u_base d)"

definition variance_draw :: "payload_draws \<Rightarrow> real" where
  "variance_draw d = uniform 100000 500000 (u_variance d)"

text \<open>
  \<^verbatim>\<open>random.choice(seq)\<close> is \<^verbatim>\<open>seq[i]\<close> for a random index \<open>i\<close> below \<^verbatim>\<open>len(seq)\<close>, each
  index with the same chance.
\<close>

definition random_choice :: "'a list \<Rightarrow> nat \<Rightarrow> py_error + 'a" where
  "random_choice seq i =
     (if i < length seq then Inr (seq ! i) else Inl (IndexError ''list index out of range''))"

definition corruption_choices :: "corruption list" where
  "corruption_choices = [missing_nonce, bad_commitment, wrong_arch, corrupt_json]"

text \<open>\<^verbatim>\<open>d[key]\<close> and \<^verbatim>\<open>d[key] = v\<close> and \<^verbatim>\<open>del d[key]\<close> on a parsed document.\<close>

fun py_index :: "json \<Rightarrow> string \<Rightarrow> py_error + json" where
  "py_index (JObj kvs) k = (case map_of kvs k of None \<Rightarrow> Inl (KeyError (quoted k)) | Some v \<Rightarrow> Inr v)"
| "py_index j k = Inl (TypeError (quoted (type_name j) @ '' object is not subscriptable''))"

fun alist_set :: "string \<Rightarrow> json \<Rightarrow> (string \<times> json) list \<Rightarrow> (string \<times> json) list" where
  "alist_set k v [] = [(k, v)]"
| "alist_set k v (p # ps) = (if fst p = k then (k, v) # ps else p # alist_set k v ps)"

fun py_setitem :: "json \<Rightarrow> string \<Rightarrow> json \<Rightarrow> py_error + json" where
  "py_setitem (JObj kvs) k v = Inr (JObj (alist_set k v kvs))"
| "py_setitem j k v = Inl (TypeError (quoted (type_name j) @ '' object does not support item assignment''))"

fun py_delitem :: "json \<Rightarrow> string \<Rightarrow> py_error + json" where
  "py_delitem (JObj kvs) k =
     (case map_of kvs k of None \<Rightarrow> Inl (KeyError (quoted k))
      | Some v \<Rightarrow> Inr (JObj (filter (\<lambda>p. fst p \<noteq> k) kvs)))"
| "py_delitem j k = Inl (TypeError (quoted (type_name j) @ '' object does not support item deletion''))"

text \<open>\<^verbatim>\<open>nonce + self.wallet\<close>: only a str can be concatenated with the wallet.\<close>

fun concat_nonce :: "json \<Rightarrow> string \<Rightarrow> py_error + string" where
  "concat_nonce (JStr s) w = Inr (s @ w)"
| "concat_nonce (JList xs) w =
     Inl (TypeError (''can only concatenate list (not '' @ dquoted ''str'' @ '') to list''))"
| "concat_nonce j w =
     Inl (TypeError (''unsupported operand type(s) for +: '' @ quoted (type_name j) @ '' and '' @ quoted ''str''))"

definition samples_of :: "payload_draws \<Rightarrow> real list" where
  "samples_of d = map (\<lambda>i. base_time d + gauss d i) [0..<12]"

definition entropy_of :: "payload_draws \<Rightarrow> json" where
  "entropy_of d =
     (let samples = samples_of d
      in JObj [(''mean_ns'', JFloat (sum_list samples / real (length samples))),
               (''variance_ns'', JFloat (variance_draw d)),
               (''min_ns'', JFloat (Min (set samples))),
               (''max_ns'', JFloat (Max (set samples))),
               (''sample_count'', JInt 48),
               (''samples_preview'', JList (map JFloat samples))])"

definition generate_entropy_report :: "libs \<Rightarrow> simulator \<Rightarrow> payload_draws \<Rightarrow> json \<Rightarrow> py_error + json" where
  "generate_entropy_report L sim d nonce =
     (let entropy = entropy_of d
      in case concat_nonce nonce (wallet sim) of
           Inl e \<Rightarrow> Inl e
         | Inr nw \<Rightarrow>
             let commitment = sha256_hex L (nw @ json_dumps L entropy)
             in (case py_index entropy ''variance_ns'' of
                   Inl e \<Rightarrow> Inl e
                 | Inr score \<Rightarrow>
                     Inr (JObj [(''nonce'', nonce),
                                (''commitment'', JStr commitment),
                                (''derived'', entropy),
                                (''entropy_score'', score)])))"

text \<open>\<^verbatim>\<open>"PowerPC" in family\<close>: the substring test.\<close>

fun starts_with :: "string \<Rightarrow> string \<Rightarrow> bool" where
  "starts_with s [] = True"
| "starts_with [] (c # cs) = False"
| "starts_with (x # xs) (c # cs) = (x = c \<and> starts_with xs cs)"

fun contains :: "string \<Rightarrow> string \<Rightarrow> bool" where
  "contains [] sub = (sub = [])"
| "contains (x # xs) sub = (starts_with (x # xs) sub \<or> contains xs sub)"

definition build_attestation_payload :: "libs \<Rightarrow> simulator \<Rightarrow> payload_draws \<Rightarrow> json \<Rightarrow> py_error + json" where
  "build_attestation_payload L sim d nonce =
     (case generate_entropy_report L sim d nonce of
        Inl e \<Rightarrow> Inl e
      | Inr report \<Rightarrow>
          Inr (JObj
            [(''miner'', JStr (wallet sim)),
             (''miner_id'', JStr (miner_id sim)),
             (''nonce'', nonce),
             (''report'', report),
             (''device'', JObj
                [(''family'', JStr (family (profile sim))),
                 (''arch'', JStr (arch_key sim)),
                 (''model'', JStr (model (profile sim))),
                 (''cpu'', JStr (model (profile sim))),
                 (''cores'', JInt (cores d)),
                 (''memory_gb'', JInt (memory_gb d)),
                 (''serial'', JStr (serial sim))]),
             (''signals'', JObj
                [(''macs'', JList [JStr (mac_address sim)]),
                 (''hostname'', JStr (hostname sim))]),
             (''fingerprint'', JObj
                [(''all_passed'', JBool True),
                 (''checks'', JObj
                    [(''anti_emulation'', JObj [(''passed'', JBool True),
                        (''data'', JObj [(''vm_indicators'', JList [])])]),
                     (''cpu_features'', JObj [(''passed'', JBool True),
                        (''data'', JObj [(''flags'', JList
                           [JStr (if contains (family (profile sim)) ''PowerPC'' then ''altivec'' else ''avx2'')])])]),
                     (''io_latency'', JObj [(''passed'', JBool True),
                        (''data'', JObj [(''p95_ns'', JInt (io_p95 d))])]),
                     (''serial_binding'', JObj [(''passed'', JBool True),
                        (''data'', JObj [(''serial'', JStr (serial sim))])])])])]))"

definition build_enroll_payload :: "simulator \<Rightarrow> json" where
  "build_enroll_payload sim =
     JObj [(''miner_pubkey'', JStr (wallet sim)),
           (''miner_id'', JStr (miner_id sim)),
           (''device'', JObj [(''family'', JStr (family (profile sim))),
                              (''arch'', JStr (arch_key sim))])]"

definition bind_err :: "'e + 'a \<Rightarrow> ('a \<Rightarrow> 'e + 'b) \<Rightarrow> 'e + 'b" where
  "bind_err m f = (case m of Inl e \<Rightarrow> Inl e | Inr x \<Rightarrow> f x)"

definition build_malformed_payload :: "libs \<Rightarrow> simulator \<Rightarrow> payload_draws \<Rightarrow> json \<Rightarrow> py_error + wire" where
  "build_malformed_payload L sim d nonce =
     bind_err (build_attestation_payload L sim d nonce) (\<lambda>payload.
     bind_err (random_choice corruption_choices (choice_index d)) (\<lambda>choice.
       case choice of
         missing_nonce \<Rightarrow>
           bind_err (py_delitem payload ''nonce'') (\<lambda>p. Inr (Payload p))
       | bad_commitment \<Rightarrow>
           bind_err (py_index payload ''report'') (\<lambda>report.
           bind_err (py_setitem report ''commitment'' (JStr ''invalid_hash_value'')) (\<lambda>report'.
           bind_err (py_setitem payload ''report'' report') (\<lambda>p. Inr (Payload p))))
       | wrong_arch \<Rightarrow>
           bind_err (py_index payload ''device'') (\<lambda>device.
           bind_err (py_setitem device ''arch'' (JStr ''intel-i9-but-really-g4'')) (\<lambda>device'.
           bind_err (py_setitem payload ''device'' device') (\<lambda>p. Inr (Payload p))))
       | corrupt_json \<Rightarrow> Inr (RawString (''{'' @ dquoted ''invalid'' @ '': json...''))))"


section \<open>One session\<close>

text \<open>
  What one session meets: the node's base URL (after \<^verbatim>\<open>rstrip("/")\<close>), the node's
  answers, the time the session waits for a permit of the semaphore, and the draws of
  its payload.
\<close>

record session_env =
  node_url :: string
  server :: server
  gate_wait :: real
  draws :: payload_draws

definition rstrip_slash :: "string \<Rightarrow> string" where
  "rstrip_slash s = rev (dropWhile (\<lambda>c. c = CHR ''/'') (rev s))"

text \<open>\<^verbatim>\<open>except Exception as e: stats["error"] = str(e)\<close>\<close>

definition fail_with :: "py_error \<Rightarrow> stats \<Rightarrow> stats" where
  "fail_with e st = st\<lparr>error := Some (py_str e)\<rparr>"

text \<open>Step 3 of \<^verbatim>\<open>run_miner_session\<close>: enroll in the epoch.\<close>

definition enroll_stage :: "libs \<Rightarrow> session_env \<Rightarrow> simulator \<Rightarrow> stats \<times> world \<Rightarrow> stats \<times> world" where
  "enroll_stage L env sim sw =
     (case perform_step_with_retry (server env) ''enroll'' (node_url env @ ''/epoch/enroll'')
             (Payload (build_enroll_payload sim)) sw of
        (res, st1, w1) \<Rightarrow>
          if truthy res then
            (case py_get res ''ok'' of
               Inl e \<Rightarrow> (fail_with e st1, w1)
             | Inr ok \<Rightarrow>
                 if truthy ok then (st1\<lparr>success := True\<rparr>, w1)
                 else (st1\<lparr>error := Some (''Enroll failed: '' @ py_repr L res)\<rparr>, w1))
          else (st1, w1))"

text \<open>Step 2: build the payload, submit it, and judge the answer by the session's mode.\<close>

definition submit_stage ::
  "libs \<Rightarrow> session_env \<Rightarrow> simulator \<Rightarrow> bool \<Rightarrow> json \<Rightarrow> stats \<times> world \<Rightarrow> stats \<times> world" where
  "submit_stage L env sim malformed nonce sw =
     (case (if malformed then build_malformed_payload L sim (draws env) nonce
            else bind_err (build_attestation_payload L sim (draws env) nonce) (\<lambda>p. Inr (Payload p))) of
        Inl e \<Rightarrow> (fail_with e (fst sw), snd sw)
      | Inr payload \<Rightarrow>
          (case perform_step_with_retry (server env) ''submit'' (node_url env @ ''/attest/submit'') payload sw of
             (res, st1, w1) \<Rightarrow>
               if malformed then
                 (if truthy res then
                    (case py_get res ''ok'' of
                       Inl e \<Rightarrow> (fail_with e st1, w1)
                     | Inr ok \<Rightarrow>
                         if \<not> truthy ok then
                           (st1\<lparr>success := True, s_notes := Some ''Correctly rejected malformed payload''\<rparr>, w1)
                         else (st1, w1))
                  else (st1, w1))
               else if \<not> truthy res then (st1, w1)
               else
                 (case py_get res ''ok'' of
                    Inl e \<Rightarrow> (fail_with e st1, w1)
                  | Inr ok \<Rightarrow>
                      if \<not> truthy ok then (st1\<lparr>error := Some (''Submit rejected: '' @ py_repr L res)\<rparr>, w1)
                      else enroll_stage L env sim (st1, w1))))"

text \<open>Step 1: get the challenge; the body of the \<^verbatim>\<open>try\<close> block.\<close>

definition challenge_stage ::
  "libs \<Rightarrow> session_env \<Rightarrow> simulator \<Rightarrow> bool \<Rightarrow> stats \<times> world \<Rightarrow> stats \<times> world" where
  "challenge_stage L env sim malformed sw =
     (case perform_step_with_retry (server env) ''challenge'' (node_url env @ ''/attest/challenge'')
             (Payload (JObj [])) sw of
        (nonce_data, st1, w1) \<Rightarrow>
          if \<not> truthy nonce_data then (st1, w1)
          else
            (case py_get nonce_data ''nonce'' of
               Inl e \<Rightarrow> (fail_with e st1, w1)
             | Inr nonce \<Rightarrow> submit_stage L env sim malformed nonce (st1, w1)))"

text \<open>
  \<^verbatim>\<open>run_miner_session\<close>: override the identity, create the outcome, wait for the gate, run
  the three steps, and record the total time in the \<^verbatim>\<open>finally\<close> block. A forced
  identity that is the empty string is not \<^verbatim>\<open>None\<close> but is false.
\<close>

definition run_miner_session ::
  "libs \<Rightarrow> session_env \<Rightarrow> simulator \<Rightarrow> string option \<Rightarrow> bool \<Rightarrow> world \<Rightarrow> stats \<times> world" where
  "run_miner_session L env sim force_duplicate_id malformed w0 =
     (let sim1 = (case force_duplicate_id of
                    None \<Rightarrow> sim
                  | Some fid \<Rightarrow> if fid \<noteq> [] then sim\<lparr>miner_id := fid\<rparr> else sim);
          st0 = \<lparr>s_miner_id = miner_id sim1, success = False, steps = Map.empty, total_time = 0,
                 retries = 0, is_duplicate = (force_duplicate_id \<noteq> None), is_malformed = malformed,
                 s_notes = None, error = None\<rparr>;
          start_total = perf_counter w0;
          w1 = w0\<lparr>perf_counter := perf_counter w0 + gate_wait env\<rparr>
      in case challenge_stage L env sim1 malformed (st0, w1) of
           (st, w) \<Rightarrow> (st\<lparr>total_time := perf_counter w - start_total\<rparr>, w))"

definition fresh_world :: world where
  "fresh_world = \<lparr>perf_counter = 0, sent = [], slept = []\<rparr>"


section \<open>The run: session plan and launch\<close>

text \<open>
  The names bound at module level in \<^verbatim>\<open>harness.py\<close>: its imports (lines 1 to 6) and
  the class it defines. Reading any other global name that is not a builtin raises
  NameError.
\<close>

definition harness_globals :: "string list" where
  "harness_globals =
     [''asyncio'', ''time'', ''httpx'', ''statistics'', ''List'', ''Dict'', ''Any'',
      ''MinerSimulator'', ''StressHarness'']"

definition load_global :: "string \<Rightarrow> py_error + string" where
  "load_global name =
     (if name \<in> set harness_globals then Inr name
      else Inl (NameError (''name '' @ quoted name @ '' is not defined'')))"

text \<open>\<^verbatim>\<open>int(x)\<close> of a float truncates towards zero.\<close>

definition py_int :: "real \<Rightarrow> int" where
  "py_int x = (if 0 \<le> x then \<lfloor>x\<rfloor> else \<lceil>x\<rceil>)"

text \<open>\<^verbatim>\<open>for i in idxs: xs[i] = v\<close>, with the IndexError of an assignment out of range.\<close>

fun assign_all :: "nat list \<Rightarrow> 'a \<Rightarrow> 'a list \<Rightarrow> py_error + 'a list" where
  "assign_all [] v xs = Inr xs"
| "assign_all (i # idxs) v xs =
     (if i < length xs then assign_all idxs v (xs[i := v])
      else Inl (IndexError ''list assignment index out of range''))"

text \<open>\<^verbatim>\<open>range(0, n, 5)\<close>\<close>

definition range_by_5 :: "nat \<Rightarrow> nat list" where
  "range_by_5 n = map (\<lambda>k. 5 * k) [0..<(n + 4) div 5]"

text \<open>
  The scenario set-up of \<^verbatim>\<open>run_test\<close> (lines 116 to 129): the forced identity and the
  malformed flag of each launch index. The argument \<open>uuid_hex\<close> is what
  \<^verbatim>\<open>uuid.uuid4().hex\<close> would yield.
\<close>

definition force_ids_of :: "nat \<Rightarrow> real \<Rightarrow> string \<Rightarrow> py_error + string option list" where
  "force_ids_of num_miners duplicate_ratio uuid_hex =
     (let force_ids = replicate num_miners None
      in if duplicate_ratio > 0 then
           (let num_dupes = py_int (real num_miners * duplicate_ratio)
            in bind_err (load_global ''uuid'') (\<lambda>u.
                 let base_id = ''duplicate-miner-'' @ take 4 uuid_hex
                 in assign_all [0..<nat num_dupes] (Some base_id) force_ids))
         else Inr force_ids)"

definition malformed_flags_of :: "nat \<Rightarrow> bool \<Rightarrow> py_error + bool list" where
  "malformed_flags_of num_miners test_malformed =
     (let malformed_flags = replicate num_miners False
      in if test_malformed then assign_all (range_by_5 num_miners) True malformed_flags
         else Inr malformed_flags)"

definition delay_of :: "nat \<Rightarrow> bool \<Rightarrow> nat \<Rightarrow> real" where
  "delay_of num_miners test_epoch_boundary i =
     (if test_epoch_boundary \<and> i > num_miners div 2 then 5 else 0)"

fun collect :: "('e + 'a) list \<Rightarrow> 'e + 'a list" where
  "collect [] = Inr []"
| "collect (x # xs) = bind_err x (\<lambda>y. bind_err (collect xs) (\<lambda>ys. Inr (y # ys)))"

section \<open>The summary\<close>

record summary =
  success_rate :: real
  throughput :: real
  p50 :: "real option"
  p95 :: "real option"
  p99 :: "real option"
  step_avgs :: "(string \<times> real) list"
  top_errors :: "(string \<times> nat) list"

text \<open>
  \<^verbatim>\<open>statistics.median\<close> on a list that is not empty: the middle element of the sorted
  data, or the mean of the two middle elements.
\<close>

definition median :: "real list \<Rightarrow> real" where
  "median xs =
     (let data = sort xs; n = length data
      in if n mod 2 = 1 then data ! (n div 2)
         else (data ! (n div 2 - 1) + data ! (n div 2)) / 2)"

text \<open>
  \<^verbatim>\<open>xs[i]\<close> for an int index: an index below zero counts from the end of the list, and
  an index outside the list raises IndexError.
\<close>

definition nth_checked :: "'a list \<Rightarrow> int \<Rightarrow> py_error + 'a" where
  "nth_checked xs i =
     (if i < 0 then
        (if nat (- i) \<le> length xs then Inr (xs ! (length xs - nat (- i)))
         else Inl (IndexError ''list index out of range''))
      else if nat i < length xs then Inr (xs ! nat i)
      else Inl (IndexError ''list index out of range''))"

text \<open>The latency block (lines 171 to 177): what is printed as P50, P95 and P99.\<close>

definition latency_block :: "real list \<Rightarrow> py_error + (real option \<times> real option \<times> real option)" where
  "latency_block total_times =
     (if total_times \<noteq> [] then
        (let m = median total_times
         in if length total_times > 1 then
              (let sorted_times = sort total_times
               in bind_err (nth_checked sorted_times (py_int (real (length sorted_times) * (95 / 100)))) (\<lambda>a.
                  bind_err (nth_checked sorted_times (py_int (real (length sorted_times) * (99 / 100)))) (\<lambda>b.
                    Inr (Some m, Some a, Some b))))
            else Inr (Some m, None, None))
      else Inr (None, None, None))"

definition step_avg :: "stats list \<Rightarrow> string \<Rightarrow> (string \<times> real) list" where
  "step_avg results step =
     (let step_times = List.map_filter (\<lambda>r. steps r step) results
      in if step_times \<noteq> [] then [(step, sum_list step_times / real (length step_times))] else [])"

fun count_error :: "string \<Rightarrow> (string \<times> nat) list \<Rightarrow> (string \<times> nat) list" where
  "count_error err [] = [(err, 1)]"
| "count_error err (p # ps) = (if fst p = err then (err, snd p + 1) # ps else p # count_error err ps)"

definition error_table :: "stats list \<Rightarrow> (string \<times> nat) list" where
  "error_table failures =
     (let error_counts = fold (\<lambda>r counts. count_error (case error r of None \<Rightarrow> ''Unknown error'' | Some e \<Rightarrow> e) counts)
                           failures []
      in take 5 (sort_key (\<lambda>p. - int (snd p)) error_counts))"

text \<open>
  \<^verbatim>\<open>print_summary\<close>: the quantities it prints, in the order it computes them; a division
  by zero raises.
\<close>

definition print_summary :: "stats list \<Rightarrow> nat \<Rightarrow> real \<Rightarrow> py_error + summary" where
  "print_summary results total_miners duration =
     (let successes = filter success results;
          failures = filter (\<lambda>r. \<not> success r) results;
          total_times = map total_time results
      in if total_miners = 0 then Inl (ZeroDivisionError ''division by zero'')
         else
           (let rate = real (length successes) / real total_miners * 100
            in if duration = 0 then Inl (ZeroDivisionError ''float division by zero'')
               else
                 (let tp = real (length successes) / duration
                  in bind_err (latency_block total_times) (\<lambda>(a, b, c).
                       Inr \<lparr>success_rate = rate, throughput = tp, p50 = a, p95 = b, p99 = c,
                            step_avgs = concat (map (step_avg results) [''challenge'', ''submit'', ''enroll'']),
                            top_errors = error_table failures\<rparr>))))"

text \<open>
  \<^verbatim>\<open>run_test\<close>: create the simulators, set the scenarios up, run every session and
  summarise. Each session runs in its own view of the world (\<open>envs i\<close>); the results are
  in launch order. \<open>duration\<close> is the wall-clock time of the whole run.
\<close>

record run_env =
  sim_draws_at :: "nat \<Rightarrow> sim_draws"
  env_at :: "nat \<Rightarrow> session_env"
  uuid_hex :: string
  duration :: real

definition run_test ::
  "libs \<Rightarrow> run_env \<Rightarrow> nat \<Rightarrow> real \<Rightarrow> bool \<Rightarrow> bool \<Rightarrow> py_error + (stats list \<times> summary)" where
  "run_test L R num_miners duplicate_ratio test_malformed test_epoch_boundary =
     bind_err (collect (map (\<lambda>i. init_simulator L (sim_draws_at R i) None None) [0..<num_miners])) (\<lambda>simulators.
     bind_err (force_ids_of num_miners duplicate_ratio (uuid_hex R)) (\<lambda>force_ids.
     bind_err (malformed_flags_of num_miners test_malformed) (\<lambda>malformed_flags.
       let results = map (\<lambda>i. fst (run_miner_session L (env_at R i) (simulators ! i) (force_ids ! i)
                                      (malformed_flags ! i)
                                      (fresh_world\<lparr>perf_counter := delay_of num_miners test_epoch_boundary i\<rparr>)))
                         [0..<num_miners]
       in bind_err (print_summary results num_miners (duration R)) (\<lambda>s. Inr (results, s)))))"

section \<open>The concurrency gate\<close>

text \<open>
  What a session does to the shared semaphore and the shared client, in order:
  it acquires a permit on entering \<^verbatim>\<open>async with self.semaphore\<close>, sends each request and
  receives its answer (or the fault) inside the block, and releases the permit on
  leaving the block, on every exit path.
\<close>

datatype op = Acquire | Send | Receive | Release

definition session_ops :: "libs \<Rightarrow> session_env \<Rightarrow> simulator \<Rightarrow> string option \<Rightarrow> bool \<Rightarrow> op list" where
  "session_ops L env sim fid malformed =
     Acquire #
     concat (replicate (length (sent (snd (run_miner_session L env sim fid malformed fresh_world)))) [Send, Receive])
     @ [Release]"

text \<open>
  The gate: the value of \<^verbatim>\<open>asyncio.Semaphore(concurrency)\<close> and, for each session, the
  operations it has still to do. The event loop picks a session and runs its next
  operation; a session whose next operation is \<open>Acquire\<close> can move only when the value is
  positive.
\<close>

record gate =
  permits :: nat
  pending :: "op list list"

definition gate_init :: "nat \<Rightarrow> op list list \<Rightarrow> gate" where
  "gate_init concurrency progs = \<lparr>permits = concurrency, pending = progs\<rparr>"

definition gate_step :: "nat \<Rightarrow> gate \<Rightarrow> gate option" where
  "gate_step i g =
     (if i < length (pending g) then
        (case pending g ! i of
           [] \<Rightarrow> None
         | Acquire # r \<Rightarrow>
             if permits g > 0 then Some (g\<lparr>permits := permits g - 1, pending := (pending g)[i := r]\<rparr>)
             else None
         | Send # r \<Rightarrow> Some (g\<lparr>pending := (pending g)[i := r]\<rparr>)
         | Receive # r \<Rightarrow> Some (g\<lparr>pending := (pending g)[i := r]\<rparr>)
         | Release # r \<Rightarrow> Some (g\<lparr>permits := permits g + 1, pending := (pending g)[i := r]\<rparr>))
      else None)"

fun run_schedule :: "nat list \<Rightarrow> gate \<Rightarrow> gate option" where
  "run_schedule [] g = Some g"
| "run_schedule (i # sched) g = (case gate_step i g of None \<Rightarrow> None | Some g' \<Rightarrow> run_schedule sched g')"

text \<open>A session has a request in flight when it has sent and not yet received.\<close>

fun in_flight :: "op list \<Rightarrow> bool" where
  "in_flight (Receive # r) = True"
| "in_flight ops = False"

definition in_flight_count :: "gate \<Rightarrow> nat" where
  "in_flight_count g = length (filter in_flight (pending g))"


text \<open>
  The operations left to a session that holds a permit and has no request in flight:
  pairs of send and receive, and the release at the end. A session's remaining
  operations are orderly when it is finished, or has not yet acquired, or holds a
  permit. A session holds a permit when it has acquired and not yet released.
\<close>

fun inside :: "op list \<Rightarrow> bool" where
  "inside [Release] = True"
| "inside (Send # Receive # r) = inside r"
| "inside ops = False"

fun orderly :: "op list \<Rightarrow> bool" where
  "orderly [] = True"
| "orderly (Acquire # r) = inside r"
| "orderly (Receive # r) = inside r"
| "orderly ops = inside ops"

fun holds :: "op list \<Rightarrow> bool" where
  "holds [] = False"
| "holds (Acquire # r) = False"
| "holds ops = True"

definition gate_inv :: "nat \<Rightarrow> gate \<Rightarrow> bool" where
  "gate_inv concurrency g =
     (list_all orderly (pending g) \<and> permits g + length (filter holds (pending g)) = concurrency)"

section \<open>Structural invariants of a payload\<close>

text \<open>
  The invariants follow the specification's words, not the code (the code never checks
  a payload): the payload carries a nonce; every fingerprint check is marked passed;
  the commitment of the entropy report is the hash of the report's nonce, the wallet
  and the canonical encoding of the report's measurements; the device's arch is an
  archetype of the declared family.
\<close>

fun lookup_path :: "json \<Rightarrow> string list \<Rightarrow> json option" where
  "lookup_path j [] = Some j"
| "lookup_path (JObj kvs) (k # ks) = (case map_of kvs k of None \<Rightarrow> None | Some v \<Rightarrow> lookup_path v ks)"
| "lookup_path j (k # ks) = None"

definition has_nonce :: "json \<Rightarrow> bool" where
  "has_nonce p = (lookup_path p [''nonce''] \<noteq> None)"

definition checks_pass :: "json \<Rightarrow> bool" where
  "checks_pass p =
     (case lookup_path p [''fingerprint'', ''checks''] of
        Some (JObj cs) \<Rightarrow>
          cs \<noteq> [] \<and> list_all (\<lambda>c. lookup_path (snd c) [''passed''] = Some (JBool True)) cs
          \<and> lookup_path p [''fingerprint'', ''all_passed''] = Some (JBool True)
      | _ \<Rightarrow> False)"

definition commitment_reproducible :: "libs \<Rightarrow> json \<Rightarrow> bool" where
  "commitment_reproducible L p =
     (case (lookup_path p [''report'', ''nonce''], lookup_path p [''miner''],
            lookup_path p [''report'', ''derived''], lookup_path p [''report'', ''commitment'']) of
        (Some (JStr n), Some (JStr w), Some e, Some (JStr c)) \<Rightarrow> c = sha256_hex L (n @ w @ json_dumps L e)
      | _ \<Rightarrow> False)"

definition arch_consistent :: "json \<Rightarrow> bool" where
  "arch_consistent p =
     (case (lookup_path p [''device'', ''arch''], lookup_path p [''device'', ''family'']) of
        (Some (JStr a), Some (JStr f)) \<Rightarrow>
          (case map_of ARCH_PROFILES a of None \<Rightarrow> False | Some prof \<Rightarrow> family prof = f)
      | _ \<Rightarrow> False)"

text \<open>The names of the invariants a payload violates.\<close>

definition violated :: "libs \<Rightarrow> json \<Rightarrow> string list" where
  "violated L p =
     (if has_nonce p then [] else [''nonce''])
     @ (if checks_pass p then [] else [''checks''])
     @ (if commitment_reproducible L p then [] else [''commitment''])
     @ (if arch_consistent p then [] else [''arch''])"

text \<open>
  What is handed to the transport, as a Python value: the dict, or the str. The harness
  tells the two apart with \<^verbatim>\<open>isinstance(payload, str)\<close>; a structured payload is one
  that is not a raw string. The invariants on fields are judged on the value itself, so
  a raw string, which has no fields, satisfies none of them.
\<close>

definition value_of :: "wire \<Rightarrow> json" where
  "value_of x = (case x of Payload p \<Rightarrow> p | RawString s \<Rightarrow> JStr s)"

definition structured :: "wire \<Rightarrow> bool" where
  "structured x = (case x of Payload p \<Rightarrow> True | RawString s \<Rightarrow> False)"

definition wire_violated :: "libs \<Rightarrow> wire \<Rightarrow> string list" where
  "wire_violated L x = (if structured x then [] else [''structure'']) @ violated L (value_of x)"

text \<open>
  The two invariants the specification names for a well-formed payload: every check
  passes and the commitment is reproducible.
\<close>

definition violated_named :: "libs \<Rightarrow> wire \<Rightarrow> string list" where
  "violated_named L x =
     (if checks_pass (value_of x) then [] else [''checks''])
     @ (if commitment_reproducible L (value_of x) then [] else [''commitment''])"

text \<open>
  Whether a text is a JSON document (RFC 8259): a recogniser of the grammar of values,
  objects, arrays, strings, numbers and the three literals, with insignificant white
  space. The first argument of the three mutually recursive functions bounds the
  number of nested calls; a text of n characters needs no more than n + 1.
\<close>

definition is_ws :: "char \<Rightarrow> bool" where
  "is_ws c = (c \<in> set [CHR 0x20, CHR 0x09, CHR 0x0A, CHR 0x0D])"

definition skip_ws :: "string \<Rightarrow> string" where
  "skip_ws cs = dropWhile is_ws cs"

definition is_digit :: "char \<Rightarrow> bool" where
  "is_digit c = (c \<in> set ''0123456789'')"

definition is_hex :: "char \<Rightarrow> bool" where
  "is_hex c = (c \<in> set ''0123456789abcdefABCDEF'')"

text \<open>The rest of the text after a string, given the text after its opening quote.\<close>

fun scan_string :: "nat \<Rightarrow> string \<Rightarrow> string option" where
  "scan_string 0 cs = None"
| "scan_string (Suc n) [] = None"
| "scan_string (Suc n) (c # r) =
     (if c = CHR 0x22 then Some r
      else if c = CHR 0x5C then
        (case r of
           [] \<Rightarrow> None
         | e # r' \<Rightarrow>
             if e \<in> set [CHR 0x22, CHR 0x5C, CHR ''/'', CHR ''b'', CHR ''f'', CHR ''n'', CHR ''r'', CHR ''t'']
             then scan_string n r'
             else if e = CHR ''u'' \<and> 4 \<le> length r' \<and> list_all is_hex (take 4 r')
             then scan_string n (drop 4 r')
             else None)
      else if (of_char c :: nat) < 32 then None
      else scan_string n r)"

definition scan_digits :: "string \<Rightarrow> string option" where
  "scan_digits cs =
     (case cs of [] \<Rightarrow> None | c # r \<Rightarrow> if is_digit c then Some (dropWhile is_digit r) else None)"

definition scan_int :: "string \<Rightarrow> string option" where
  "scan_int cs =
     (case cs of
        [] \<Rightarrow> None
      | c # r \<Rightarrow> if c = CHR ''0'' then Some r
                 else if is_digit c then Some (dropWhile is_digit r) else None)"

definition scan_frac :: "string \<Rightarrow> string option" where
  "scan_frac cs =
     (case cs of [] \<Rightarrow> Some [] | c # r \<Rightarrow> if c = CHR ''.'' then scan_digits r else Some cs)"

definition scan_exp :: "string \<Rightarrow> string option" where
  "scan_exp cs =
     (case cs of
        [] \<Rightarrow> Some []
      | c # r \<Rightarrow>
          if c = CHR ''e'' \<or> c = CHR ''E'' then
            (case r of
               [] \<Rightarrow> None
             | sg # r' \<Rightarrow> if sg = CHR ''+'' \<or> sg = CHR ''-'' then scan_digits r' else scan_digits r)
          else Some cs)"

definition scan_number :: "string \<Rightarrow> string option" where
  "scan_number cs =
     (let r0 = (case cs of [] \<Rightarrow> [] | c # r \<Rightarrow> if c = CHR ''-'' then r else cs)
      in Option.bind (scan_int r0) (\<lambda>r1. Option.bind (scan_frac r1) scan_exp))"

fun scan_value :: "nat \<Rightarrow> string \<Rightarrow> string option"
  and scan_elements :: "nat \<Rightarrow> string \<Rightarrow> string option"
  and scan_members :: "nat \<Rightarrow> string \<Rightarrow> string option" where
  "scan_value 0 cs = None"
| "scan_value (Suc n) cs =
     (case skip_ws cs of
        [] \<Rightarrow> None
      | c # r \<Rightarrow>
          if c = CHR ''{'' then
            (case skip_ws r of
               [] \<Rightarrow> None
             | c' # r' \<Rightarrow> if c' = CHR ''}'' then Some r' else scan_members n (c' # r'))
          else if c = CHR ''['' then
            (case skip_ws r of
               [] \<Rightarrow> None
             | c' # r' \<Rightarrow> if c' = CHR '']'' then Some r' else scan_elements n (c' # r'))
          else if c = CHR 0x22 then scan_string (length r) r
          else if c = CHR ''-'' \<or> is_digit c then scan_number (c # r)
          else if starts_with (c # r) ''true'' then Some (drop 4 (c # r))
          else if starts_with (c # r) ''false'' then Some (drop 5 (c # r))
          else if starts_with (c # r) ''null'' then Some (drop 4 (c # r))
          else None)"
| "scan_elements 0 cs = None"
| "scan_elements (Suc n) cs =
     (case scan_value n cs of
        None \<Rightarrow> None
      | Some r \<Rightarrow>
          (case skip_ws r of
             [] \<Rightarrow> None
           | c # r' \<Rightarrow> if c = CHR '','' then scan_elements n r'
                       else if c = CHR '']'' then Some r' else None))"
| "scan_members 0 cs = None"
| "scan_members (Suc n) cs =
     (case skip_ws cs of
        [] \<Rightarrow> None
      | q # r \<Rightarrow>
          if q \<noteq> CHR 0x22 then None
          else
            (case scan_string (length r) r of
               None \<Rightarrow> None
             | Some r1 \<Rightarrow>
                 (case skip_ws r1 of
                    [] \<Rightarrow> None
                  | c # r2 \<Rightarrow>
                      if c \<noteq> CHR '':'' then None
                      else
                        (case scan_value n r2 of
                           None \<Rightarrow> None
                         | Some r3 \<Rightarrow>
                             (case skip_ws r3 of
                                [] \<Rightarrow> None
                              | c3 # r4 \<Rightarrow> if c3 = CHR '','' then scan_members n r4
                                          else if c3 = CHR ''}'' then Some r4 else None)))))"

definition json_valid :: "string \<Rightarrow> bool" where
  "json_valid s = (case scan_value (Suc (length s)) s of None \<Rightarrow> False | Some r \<Rightarrow> skip_ws r = [])"




section \<open>Concrete inputs\<close>

definition ex_libs :: libs where
  "ex_libs = \<lparr>sha256_hex = (\<lambda>s. replicate 64 CHR ''0''), json_dumps = (\<lambda>j. ''{}''),
              py_repr = (\<lambda>j. ''{}'')\<rparr>"

definition ex_sim :: simulator where
  "ex_sim =
     \<lparr>arch_key = ''g4'',
      profile = \<lparr>model = ''PowerPC G4 (7447A)'', family = ''PowerPC'', multiplier = 5 / 2\<rparr>,
      miner_id = ''sim-g4-0a1b2c3d'', wallet = replicate 38 CHR ''0'' @ ''RTC'',
      serial = ''SN-0123456789AB'', hostname = ''host-sim-g4-0a1b2c3d'',
      mac_address = ''00:11:22:33:44:55''\<rparr>"

definition corruption_index :: "corruption \<Rightarrow> nat" where
  "corruption_index c =
     (case c of missing_nonce \<Rightarrow> 0 | bad_commitment \<Rightarrow> 1 | wrong_arch \<Rightarrow> 2 | corrupt_json \<Rightarrow> 3)"

definition ex_draws :: "corruption \<Rightarrow> payload_draws" where
  "ex_draws c =
     \<lparr>u_base = 1 / 2, gauss = (\<lambda>i. if even i then 500 else - 500), u_variance = 0,
      cores = 4, memory_gb = 8, io_p95 = 250, choice_index = corruption_index c\<rparr>"


definition ex_outcome :: "real \<Rightarrow> stats" where
  "ex_outcome t =
     \<lparr>s_miner_id = ''sim-g4-0a1b2c3d'', success = True, steps = Map.empty, total_time = t,
      retries = 0, is_duplicate = False, is_malformed = False, s_notes = None, error = None\<rparr>"

text \<open>A node that answers a session's requests from a script, and then with a default.\<close>

definition http_reply :: "real \<Rightarrow> nat \<Rightarrow> string \<Rightarrow> py_error + json \<Rightarrow> attempt" where
  "http_reply dt code body parsed =
     \<lparr>elapsed = dt, outcome = Inr \<lparr>status_code = code, resp_text = body, resp_json = parsed\<rparr>\<rparr>"

definition transport_fault :: "real \<Rightarrow> string \<Rightarrow> attempt" where
  "transport_fault dt msg = \<lparr>elapsed = dt, outcome = Inl (TransportError msg)\<rparr>"

definition scripted :: "attempt list \<Rightarrow> attempt \<Rightarrow> server" where
  "scripted script dflt = (\<lambda>i url body. if i < length script then script ! i else dflt)"

definition too_many :: attempt where
  "too_many = http_reply 1 429 ''slow down'' (Inl (JSONDecodeError ''Expecting value''))"

definition nonce_reply :: attempt where
  "nonce_reply = http_reply 3 200 ''{...}'' (Inr (JObj [(''nonce'', JStr ''n1'')]))"

definition ex_stats :: stats where
  "ex_stats =
     \<lparr>s_miner_id = ''sim-g4-0a1b2c3d'', success = False, steps = Map.empty, total_time = 0,
      retries = 0, is_duplicate = False, is_malformed = False, s_notes = None, error = None\<rparr>"

definition empty_rejection :: attempt where
  "empty_rejection = http_reply 1 400 ''{}'' (Inr (JObj []))"

definition plain_rejection :: attempt where
  "plain_rejection = http_reply 1 400 ''{...}'' (Inr (JObj [(''ok'', JBool False)]))"

definition ex_env :: "server \<Rightarrow> corruption \<Rightarrow> session_env" where
  "ex_env srv c = \<lparr>node_url = ''http://node'', server = srv, gate_wait = 0, draws = ex_draws c\<rparr>"

definition ex_server :: server where
  "ex_server = scripted [too_many, nonce_reply] (transport_fault 30 ''timed out'')"

section \<open>Auxiliary notions for the retry loop\<close>

text \<open>\<^verbatim>\<open>stats["steps"].get(name, 0)\<close>\<close>

definition get0 :: "(string \<rightharpoonup> real) \<Rightarrow> string \<Rightarrow> real" where
  "get0 m k = (case m k of None \<Rightarrow> 0 | Some t \<Rightarrow> t)"

text \<open>The attempt got a response with the given status.\<close>

definition answers :: "nat \<Rightarrow> attempt \<Rightarrow> bool" where
  "answers code a = (case outcome a of Inl e \<Rightarrow> False | Inr resp \<Rightarrow> status_code resp = code)"

text \<open>The outcome and the world after one attempt answered 429 and the sleep that follows it.\<close>

definition after_429 :: "real \<Rightarrow> nat \<Rightarrow> string \<Rightarrow> string \<Rightarrow> wire \<Rightarrow> stats \<times> world \<Rightarrow> stats \<times> world" where
  "after_429 dt backoff name url payload sw =
     (case sw of (st, w) \<Rightarrow>
       (st\<lparr>steps := (steps st)(name \<mapsto> get0 (steps st) name + dt), retries := retries st + 1\<rparr>,
        w\<lparr>perf_counter := perf_counter w + dt + real backoff,
          sent := sent w @ [(url, payload)], slept := slept w @ [backoff]\<rparr>))"

text \<open>
  The kinds of answer an attempt can get, as \<^verbatim>\<open>_perform_step_with_retry\<close> tells them
  apart: a transport fault (\<^verbatim>\<open>client.post\<close> raises), a status the method does not
  recognise, a recognised status (200, 400, 403) whose body does not parse, a recognised
  status whose body parses, and 429.
\<close>

definition faulted :: "attempt \<Rightarrow> bool" where
  "faulted a = (case outcome a of Inl e \<Rightarrow> True | Inr resp \<Rightarrow> False)"

definition unrecognised :: "attempt \<Rightarrow> bool" where
  "unrecognised a =
     (case outcome a of Inl e \<Rightarrow> False
      | Inr resp \<Rightarrow> status_code resp \<notin> set [200, 400, 403, 429])"

definition garbled :: "attempt \<Rightarrow> bool" where
  "garbled a =
     (case outcome a of Inl e \<Rightarrow> False
      | Inr resp \<Rightarrow> status_code resp \<in> set [200, 400, 403]
                    \<and> (case resp_json resp of Inl e \<Rightarrow> True | Inr j \<Rightarrow> False))"

definition accepted :: "attempt \<Rightarrow> json \<Rightarrow> bool" where
  "accepted a j =
     (case outcome a of Inl e \<Rightarrow> False
      | Inr resp \<Rightarrow> status_code resp \<in> set [200, 400, 403] \<and> resp_json resp = Inr j)"

text \<open>The text the method records for an attempt that makes the step fail at once.\<close>

definition failure_text :: "attempt \<Rightarrow> string" where
  "failure_text a =
     (case outcome a of
        Inl e \<Rightarrow> py_str e
      | Inr resp \<Rightarrow>
          if status_code resp \<in> set [200, 400, 403] then
            (case resp_json resp of Inl e \<Rightarrow> py_str e | Inr j \<Rightarrow> [])
          else ''HTTP '' @ show_nat (status_code resp) @ '': '' @ take 50 (resp_text resp))"

text \<open>The time an attempt adds to the step's entry: its round trip, if it got a response.\<close>

definition response_time :: "attempt \<Rightarrow> real" where
  "response_time a = (case outcome a of Inl e \<Rightarrow> 0 | Inr resp \<Rightarrow> elapsed a)"

text \<open>The answer to the i-th request a session has sent.\<close>

definition reply_at :: "server \<Rightarrow> world \<Rightarrow> nat \<Rightarrow> attempt" where
  "reply_at srv w i = srv i (fst (sent w ! i)) (snd (sent w ! i))"

text \<open>
  An attempt is fatal when it makes the step fail at once, and tolerated when the step
  goes on after it (429) or returns its parsed body.
\<close>

definition parsed_ok :: "attempt \<Rightarrow> bool" where
  "parsed_ok a =
     (case outcome a of Inl e \<Rightarrow> False
      | Inr resp \<Rightarrow> status_code resp \<in> set [200, 400, 403]
                    \<and> (case resp_json resp of Inl e \<Rightarrow> False | Inr j \<Rightarrow> True))"

definition fatal :: "attempt \<Rightarrow> bool" where
  "fatal a = (faulted a \<or> unrecognised a \<or> garbled a)"

definition tolerated :: "attempt \<Rightarrow> bool" where
  "tolerated a = (answers 429 a \<or> parsed_ok a)"

text \<open>
  A session is under way when it has not succeeded yet, every request it has sent was
  tolerated, and the last one, if any, returned a parsed body. It is concluded when it
  has sent a request, every request before the last was tolerated, and the outcome
  records the failure of the last request, if the last request failed.
\<close>

definition underway :: "server \<Rightarrow> stats \<times> world \<Rightarrow> bool" where
  "underway srv sw =
     (case sw of (st, w) \<Rightarrow>
        \<not> success st
        \<and> (\<forall>i<length (sent w). tolerated (reply_at srv w i))
        \<and> (sent w = [] \<or> parsed_ok (reply_at srv w (length (sent w) - 1))))"

definition concluded :: "server \<Rightarrow> stats \<times> world \<Rightarrow> bool" where
  "concluded srv sw =
     (case sw of (st, w) \<Rightarrow>
        sent w \<noteq> []
        \<and> (\<forall>i<length (sent w) - 1. tolerated (reply_at srv w i))
        \<and> (\<not> fatal (reply_at srv w (length (sent w) - 1))
             \<or> (error st = Some (failure_text (reply_at srv w (length (sent w) - 1))) \<and> \<not> success st))
        \<and> (\<not> answers 429 (reply_at srv w (length (sent w) - 1))
             \<or> (error st = Some ''Max retries exceeded (429)'' \<and> \<not> success st)))"

text \<open>The names of the three steps and the URL each is posted to.\<close>

definition step_names :: "string list" where
  "step_names = [''challenge'', ''submit'', ''enroll'']"

definition step_url :: "session_env \<Rightarrow> string \<Rightarrow> string" where
  "step_url env name =
     (if name = ''challenge'' then node_url env @ ''/attest/challenge''
      else if name = ''submit'' then node_url env @ ''/attest/submit''
      else node_url env @ ''/epoch/enroll'')"

text \<open>
  The time a session's requests to one URL have added to the step entries, and the
  books of a session: the clock is the start plus the round trips and the sleeps, and
  each step's entry is the time of the answered requests to its URL.
\<close>

definition answered_time :: "server \<Rightarrow> world \<Rightarrow> string \<Rightarrow> real" where
  "answered_time srv w url =
     (\<Sum>i<length (sent w). if fst (sent w ! i) = url then response_time (reply_at srv w i) else 0)"

definition ledger :: "session_env \<Rightarrow> real \<Rightarrow> stats \<times> world \<Rightarrow> bool" where
  "ledger env base sw =
     (case sw of (st, w) \<Rightarrow>
        perf_counter w = base + (\<Sum>i<length (sent w). elapsed (reply_at (server env) w i))
                           + real (sum_list (slept w))
        \<and> list_all (\<lambda>name. get0 (steps st) name = answered_time (server env) w (step_url env name)) step_names)"

text \<open>
  The result of the attempt that ends the step without a retry: a fault, a status that
  is not 429, with the outcome and the world it leaves.
\<close>

definition after_final :: "attempt \<Rightarrow> string \<Rightarrow> string \<Rightarrow> wire \<Rightarrow> stats \<times> world \<Rightarrow> json \<times> stats \<times> world" where
  "after_final a name url payload sw =
     (case sw of (st, w) \<Rightarrow>
        (let w1 = w\<lparr>perf_counter := perf_counter w + elapsed a, sent := sent w @ [(url, payload)]\<rparr>;
             st1 = st\<lparr>steps := (steps st)(name \<mapsto> get0 (steps st) name + elapsed a)\<rparr>
         in case outcome a of
              Inl e \<Rightarrow> (JNull, st\<lparr>error := Some (py_str e)\<rparr>, w1)
            | Inr resp \<Rightarrow>
                if status_code resp \<in> set [200, 400, 403] then
                  (case resp_json resp of
                     Inl e \<Rightarrow> (JNull, st1\<lparr>error := Some (py_str e)\<rparr>, w1)
                   | Inr j \<Rightarrow> (j, st1, w1))
                else (JNull, st1\<lparr>error := Some (failure_text a)\<rparr>, w1)))"

section \<open>The duplicate-identity scenario\<close>

lemma load_uuid:
  "load_global ''uuid'' = Inl (NameError (''name '' @ quoted ''uuid'' @ '' is not defined''))"
  by (simp add: load_global_def harness_globals_def)

lemma force_ids_positive_ratio:
  "0 < r \<Longrightarrow> force_ids_of n r hex = Inl (NameError (''name '' @ quoted ''uuid'' @ '' is not defined''))"
  by (simp add: force_ids_of_def load_uuid bind_err_def Let_def)

lemma force_ids_zero_ratio: "r \<le> 0 \<Longrightarrow> force_ids_of n r hex = Inr (replicate n None)"
  by (simp add: force_ids_of_def Let_def)

text \<open>
  C1. With 10 miners and a duplicate ratio of 0.2, the scenario set-up of \<^verbatim>\<open>run_test\<close>
  does not force two sessions to share an identity: it reads the global name
  \<^verbatim>\<open>uuid\<close>, which \<^verbatim>\<open>harness.py\<close> never imports, and raises NameError before any session
  is launched.
\<close>

theorem duplicate_setup_raises_name_error:
  "force_ids_of 10 (1 / 5) hex = Inl (NameError (''name '' @ quoted ''uuid'' @ '' is not defined''))"
  by (simp add: force_ids_of_def load_uuid bind_err_def)

section \<open>The summary of a run\<close>

text \<open>
  C8. A run with zero sessions does not produce a summary: \<^verbatim>\<open>print_summary\<close> divides
  the number of successes by the number of miners and raises ZeroDivisionError.
\<close>

theorem empty_run_summary_raises:
  "run_test L R 0 0 False False = Inl (ZeroDivisionError ''division by zero'')"
  by (simp add: run_test_def bind_err_def force_ids_of_def malformed_flags_of_def print_summary_def)

lemma zero_duration_summary_raises:
  "0 < n \<Longrightarrow> print_summary results n 0 = Inl (ZeroDivisionError ''float division by zero'')"
  by (simp add: print_summary_def Let_def)

lemma py_int_percent:
  "py_int (real n * (real k / 100)) = int (n * k div 100)"
proof -
  have "real n * (real k / 100) = real (n * k) / real 100" by simp
  then have "\<lfloor>real n * (real k / 100)\<rfloor> = int (n * k div 100)"
    by (metis floor_divide_of_nat_eq)
  moreover have "0 \<le> real n * (real k / 100)" by simp
  ultimately show ?thesis by (simp add: py_int_def)
qed

lemma nth_checked_nat: "i < length xs \<Longrightarrow> nth_checked xs (int i) = Inr (xs ! i)"
  by (simp add: nth_checked_def)

lemma py_int_95: "py_int (real n * (95 / 100)) = int (n * 95 div 100)"
  using py_int_percent[of n 95] by simp

lemma py_int_99: "py_int (real n * (99 / 100)) = int (n * 99 div 100)"
  using py_int_percent[of n 99] by simp

lemma latency_block_eq:
  "latency_block ts =
     Inr (if ts = [] then None else Some (median ts),
          if 1 < length ts then Some (sort ts ! (length ts * 95 div 100)) else None,
          if 1 < length ts then Some (sort ts ! (length ts * 99 div 100)) else None)"
proof (cases "1 < length ts")
  case True
  then have ne: "ts \<noteq> []" by auto
  have a: "nth_checked (sort ts) (py_int (real (length (sort ts)) * (95 / 100)))
           = Inr (sort ts ! (length ts * 95 div 100))"
  proof -
    have "length (sort ts) * 95 div 100 < length (sort ts)" using True by simp
    from nth_checked_nat[OF this] show ?thesis unfolding py_int_95 by (simp only: length_sort)
  qed
  have b: "nth_checked (sort ts) (py_int (real (length (sort ts)) * (99 / 100)))
           = Inr (sort ts ! (length ts * 99 div 100))"
  proof -
    have "length (sort ts) * 99 div 100 < length (sort ts)" using True by simp
    from nth_checked_nat[OF this] show ?thesis unfolding py_int_99 by (simp only: length_sort)
  qed
  show ?thesis
    unfolding latency_block_def Let_def a b bind_err_def using True ne by simp
next
  case False
  then show ?thesis
    by (cases ts) (simp_all add: latency_block_def Let_def)
qed

lemma median_example: "median [1, 2, 3, 4, 5] = 3"
  by (simp add: median_def Let_def)

text \<open>
  C6, as the code has it. For a run with at least one miner and a duration that is not
  zero, the summary reports P50 as the median of the total times when there is at least
  one session, and reports P95 and P99 only when there are at least two sessions, as the
  element of the sorted total times at index \<open>count * N div 100\<close>, with no interpolation.
\<close>

theorem summary_percentiles:
  assumes "0 < total_miners" and "wall \<noteq> 0"
  shows "\<exists>s. print_summary results total_miners wall = Inr s
           \<and> p50 s = (if results = [] then None else Some (median (map total_time results)))
           \<and> p95 s = (if 1 < length results
                       then Some (sort (map total_time results) ! (length results * 95 div 100)) else None)
           \<and> p99 s = (if 1 < length results
                       then Some (sort (map total_time results) ! (length results * 99 div 100)) else None)"
  using assms
  by (simp add: print_summary_def Let_def latency_block_eq bind_err_def)

text \<open>For the total times 1, 2, 3, 4, 5 the summary reports P50 = 3, P95 = 5 and P99 = 5.\<close>

theorem summary_percentiles_witness:
  "map_sum id (\<lambda>s. (p50 s, p95 s, p99 s)) (print_summary (map ex_outcome [1, 2, 3, 4, 5]) 5 1)
   = Inr (Some 3, Some 5, Some 5)"
  using summary_percentiles[of 5 1 "map ex_outcome [1, 2, 3, 4, 5]"]
  by (auto simp: ex_outcome_def median_example)

text \<open>
  C6, as stated, fails for a run of one session: the element of the sorted total times
  at index \<open>floor (1 * 95 / 100)\<close> is 7, and the summary reports no P95 and no P99.
\<close>

theorem single_session_has_no_p95:
  "map_sum id (\<lambda>s. (p50 s, p95 s, p99 s)) (print_summary [ex_outcome 7] 1 1) = Inr (Some 7, None, None)
   \<and> sort (map total_time [ex_outcome 7]) ! nat \<lfloor>1 * 95 / 100 :: real\<rfloor> = 7"
  by (simp add: print_summary_def Let_def latency_block_def bind_err_def ex_outcome_def median_def)

section \<open>Payloads and their invariants\<close>





lemma hash_not_invalid:
  assumes "\<forall>x. length (sha256_hex L x) = 64"
  shows "sha256_hex L x \<noteq> ''invalid_hash_value''"
proof
  assume "sha256_hex L x = ''invalid_hash_value''"
  then have "length (sha256_hex L x) = 18" by simp
  with assms show False by simp
qed

lemma entropy_variance: "py_index (entropy_of d) ''variance_ns'' = Inr (JFloat (variance_draw d))"
  by (simp add: entropy_of_def Let_def)

lemma report_eq:
  "generate_entropy_report L sim d (JStr n) =
     Inr (JObj [(''nonce'', JStr n),
                (''commitment'', JStr (sha256_hex L ((n @ wallet sim) @ json_dumps L (entropy_of d)))),
                (''derived'', entropy_of d),
                (''entropy_score'', JFloat (variance_draw d))])"
  by (simp add: generate_entropy_report_def Let_def entropy_variance)

lemma init_simulator_profile:
  "init_simulator L d mid arch = Inr sim \<Longrightarrow> map_of ARCH_PROFILES (arch_key sim) = Some (profile sim)"
  by (auto simp: init_simulator_def Let_def split: option.splits)

lemma choices:
  "random_choice corruption_choices 0 = Inr missing_nonce"
  "random_choice corruption_choices (Suc 0) = Inr bad_commitment"
  "random_choice corruption_choices 2 = Inr wrong_arch"
  "random_choice corruption_choices 3 = Inr corrupt_json"
  by (simp_all add: random_choice_def corruption_choices_def eval_nat_numeral)

lemma choices_uniform:
  "length corruption_choices = 4" "distinct corruption_choices" "set corruption_choices = UNIV"
proof -
  show "length corruption_choices = 4" "distinct corruption_choices"
    by (simp_all add: corruption_choices_def)
  have "c \<in> set corruption_choices" for c
    by (cases c) (simp_all add: corruption_choices_def)
  then show "set corruption_choices = UNIV" by blast
qed

lemma wellformed_invariants:
  assumes "map_of ARCH_PROFILES (arch_key sim) = Some (profile sim)"
    and "build_attestation_payload L sim d (JStr n) = Inr p"
  shows "has_nonce p" "checks_pass p" "commitment_reproducible L p" "arch_consistent p"
  using assms
  by (auto simp: build_attestation_payload_def report_eq has_nonce_def checks_pass_def
      commitment_reproducible_def arch_consistent_def)

lemma missing_nonce_result:
  assumes "map_of ARCH_PROFILES (arch_key sim) = Some (profile sim)" and "choice_index d = 0"
  shows "\<exists>q. build_malformed_payload L sim d (JStr n) = Inr (Payload q)
           \<and> \<not> has_nonce q \<and> checks_pass q \<and> commitment_reproducible L q \<and> arch_consistent q"
  using assms
  by (simp add: build_malformed_payload_def build_attestation_payload_def report_eq bind_err_def choices
      has_nonce_def checks_pass_def commitment_reproducible_def arch_consistent_def)

lemma bad_commitment_result:
  assumes "map_of ARCH_PROFILES (arch_key sim) = Some (profile sim)" and "choice_index d = 1"
    and "\<forall>x. length (sha256_hex L x) = 64"
  shows "\<exists>q. build_malformed_payload L sim d (JStr n) = Inr (Payload q)
           \<and> has_nonce q \<and> checks_pass q \<and> \<not> commitment_reproducible L q \<and> arch_consistent q"
  using assms(1,2) hash_not_invalid[OF assms(3)] hash_not_invalid[OF assms(3), THEN not_sym]
  by (simp add: build_malformed_payload_def build_attestation_payload_def report_eq bind_err_def choices
      has_nonce_def checks_pass_def commitment_reproducible_def arch_consistent_def)

lemma wrong_arch_result:
  assumes "map_of ARCH_PROFILES (arch_key sim) = Some (profile sim)" and "choice_index d = 2"
  shows "\<exists>q. build_malformed_payload L sim d (JStr n) = Inr (Payload q)
           \<and> has_nonce q \<and> checks_pass q \<and> commitment_reproducible L q \<and> \<not> arch_consistent q"
  using assms
  by (simp add: build_malformed_payload_def build_attestation_payload_def report_eq bind_err_def choices
      has_nonce_def checks_pass_def commitment_reproducible_def arch_consistent_def ARCH_PROFILES_def)

lemma corrupt_json_result:
  assumes "choice_index d = 3"
  shows "build_malformed_payload L sim d (JStr n) = Inr (RawString (''{'' @ dquoted ''invalid'' @ '': json...''))"
  using assms
  by (simp add: build_malformed_payload_def build_attestation_payload_def report_eq bind_err_def choices)

lemma raw_unparsable: "\<not> json_valid (''{'' @ dquoted ''invalid'' @ '': json...'')"
  by code_simp

lemma repaired_parses: "json_valid (''{'' @ dquoted ''invalid'' @ '': 1}'')"
  by code_simp

lemma raw_string_violations:
  "wire_violated L (RawString s) = [''structure'', ''nonce'', ''checks'', ''commitment'', ''arch'']"
  by (simp add: wire_violated_def structured_def value_of_def violated_def has_nonce_def checks_pass_def
      commitment_reproducible_def arch_consistent_def)


text \<open>
  C2, as the code has it. For a simulator whose profile is the archetype of its arch key,
  a hash of 64 characters, a nonce that is a string and an index below 4 picked by
  \<^verbatim>\<open>random.choice\<close>: the well-formed payload violates none of the invariants (it is
  structured, the nonce is present, every fingerprint check is passed, the commitment is
  reproducible from the report's nonce, the wallet and the report's measurements, the
  arch is consistent with the family). The malformed payload violates exactly one
  invariant when the corruption drops the nonce, replaces the commitment or replaces
  the arch: the one the corruption aims at. When the corruption is the raw encoding,
  the result is a raw string that is not a JSON document and violates every invariant.
  The four corruptions are the four distinct entries of the list the index is drawn
  for, so each has the same chance.
\<close>

theorem malformed_payload_violations:
  assumes "map_of ARCH_PROFILES (arch_key sim) = Some (profile sim)"
    and "\<forall>x. length (sha256_hex L x) = 64"
    and "choice_index d < 4"
  shows "map_sum id (\<lambda>p. wire_violated L (Payload p)) (build_attestation_payload L sim d (JStr n)) = Inr []
       \<and> map_sum id (wire_violated L) (build_malformed_payload L sim d (JStr n))
           = Inr (case corruption_choices ! choice_index d of
                    missing_nonce \<Rightarrow> [''nonce'']
                  | bad_commitment \<Rightarrow> [''commitment'']
                  | wrong_arch \<Rightarrow> [''arch'']
                  | corrupt_json \<Rightarrow> [''structure'', ''nonce'', ''checks'', ''commitment'', ''arch''])
       \<and> (corruption_choices ! choice_index d = corrupt_json \<longrightarrow>
            map_sum id (\<lambda>x. case x of Payload p \<Rightarrow> True | RawString s \<Rightarrow> json_valid s)
              (build_malformed_payload L sim d (JStr n)) = Inr False)
       \<and> length corruption_choices = 4 \<and> distinct corruption_choices \<and> set corruption_choices = UNIV"
proof -
  obtain p where p: "build_attestation_payload L sim d (JStr n) = Inr p"
    by (simp add: build_attestation_payload_def report_eq)
  have wf: "wire_violated L (Payload p) = []"
    using wellformed_invariants[OF assms(1) p]
    by (simp add: wire_violated_def structured_def value_of_def violated_def)
  have idx: "choice_index d = 0 \<or> choice_index d = 1 \<or> choice_index d = 2 \<or> choice_index d = 3"
    using assms(3) by auto
  have mal: "map_sum id (wire_violated L) (build_malformed_payload L sim d (JStr n))
           = Inr (case corruption_choices ! choice_index d of
                    missing_nonce \<Rightarrow> [''nonce'']
                  | bad_commitment \<Rightarrow> [''commitment'']
                  | wrong_arch \<Rightarrow> [''arch'']
                  | corrupt_json \<Rightarrow> [''structure'', ''nonce'', ''checks'', ''commitment'', ''arch''])
       \<and> (corruption_choices ! choice_index d = corrupt_json \<longrightarrow>
            map_sum id (\<lambda>x. case x of Payload p \<Rightarrow> True | RawString s \<Rightarrow> json_valid s)
              (build_malformed_payload L sim d (JStr n)) = Inr False)"
    using idx
  proof (elim disjE)
    assume i: "choice_index d = 0"
    from missing_nonce_result[OF assms(1) i, of L n] show ?thesis
      by (auto simp: wire_violated_def structured_def value_of_def violated_def i corruption_choices_def)
  next
    assume i: "choice_index d = 1"
    from bad_commitment_result[OF assms(1) i assms(2), of n] show ?thesis
      by (auto simp: wire_violated_def structured_def value_of_def violated_def i corruption_choices_def)
  next
    assume i: "choice_index d = 2"
    from wrong_arch_result[OF assms(1) i, of L n] show ?thesis
      by (auto simp: wire_violated_def structured_def value_of_def violated_def i corruption_choices_def)
  next
    assume i: "choice_index d = 3"
    show ?thesis
      using raw_unparsable
      by (simp add: corrupt_json_result[OF i] raw_string_violations i corruption_choices_def)
  qed
  show ?thesis using p wf mal choices_uniform by simp
qed

lemma ex_sim_profile: "map_of ARCH_PROFILES (arch_key ex_sim) = Some (profile ex_sim)"
  by (simp add: ARCH_PROFILES_def ex_sim_def)

lemma ex_libs_hash: "\<forall>x. length (sha256_hex ex_libs x) = 64"
  by (simp add: ex_libs_def)

lemma ex_index: "choice_index (ex_draws c) = corruption_index c"
  by (simp add: ex_draws_def)

text \<open>The corruption of the commitment and the raw encoding, on a concrete simulator.\<close>

theorem malformed_payload_violations_witness:
  "map_sum id (\<lambda>p. wire_violated ex_libs (Payload p))
     (build_attestation_payload ex_libs ex_sim (ex_draws bad_commitment) (JStr ''n1'')) = Inr []
   \<and> map_sum id (wire_violated ex_libs)
       (build_malformed_payload ex_libs ex_sim (ex_draws bad_commitment) (JStr ''n1'')) = Inr [''commitment'']
   \<and> map_sum id (wire_violated ex_libs)
       (build_malformed_payload ex_libs ex_sim (ex_draws corrupt_json) (JStr ''n1''))
        = Inr [''structure'', ''nonce'', ''checks'', ''commitment'', ''arch'']
   \<and> map_sum id (\<lambda>x. case x of Payload p \<Rightarrow> True | RawString s \<Rightarrow> json_valid s)
       (build_malformed_payload ex_libs ex_sim (ex_draws corrupt_json) (JStr ''n1'')) = Inr False"
proof -
  have i1: "choice_index (ex_draws bad_commitment) < 4" and i3: "choice_index (ex_draws corrupt_json) < 4"
    by (simp_all add: ex_index corruption_index_def)
  note A = malformed_payload_violations[OF ex_sim_profile ex_libs_hash i1, of "''n1''"]
  note B = malformed_payload_violations[OF ex_sim_profile ex_libs_hash i3, of "''n1''"]
  show ?thesis
    using A B by (simp add: ex_index corruption_index_def corruption_choices_def)
qed

text \<open>
  C2, as stated, fails twice: the corruption of the arch violates neither of the two
  invariants the claim names (every fingerprint check passes, the commitment is
  reproducible), so it violates zero of them, and the raw encoding violates both, so it
  violates more than one.
\<close>

theorem corruptions_against_named_invariants:
  "map_sum id (violated_named ex_libs)
     (build_malformed_payload ex_libs ex_sim (ex_draws wrong_arch) (JStr ''n1'')) = Inr []
   \<and> map_sum id (violated_named ex_libs)
     (build_malformed_payload ex_libs ex_sim (ex_draws corrupt_json) (JStr ''n1''))
       = Inr [''checks'', ''commitment'']"
proof -
  have c: "choice_index (ex_draws wrong_arch) = 2" and j: "choice_index (ex_draws corrupt_json) = 3"
    by (simp_all add: ex_index corruption_index_def)
  from wrong_arch_result[OF ex_sim_profile c, of ex_libs "''n1''"]
  have a: "map_sum id (violated_named ex_libs)
     (build_malformed_payload ex_libs ex_sim (ex_draws wrong_arch) (JStr ''n1'')) = Inr []"
    by (auto simp: violated_named_def value_of_def)
  have b: "map_sum id (violated_named ex_libs)
     (build_malformed_payload ex_libs ex_sim (ex_draws corrupt_json) (JStr ''n1''))
       = Inr [''checks'', ''commitment'']"
    by (simp add: corrupt_json_result[OF j] violated_named_def value_of_def checks_pass_def
        commitment_reproducible_def)
  show ?thesis using a b by simp
qed




section \<open>The retry loop\<close>

lemma retry_loop_429:
  assumes "answers 429 (srv (length (sent w)) url payload)"
  shows "retry_loop srv (Suc n) b name url payload (st, w) =
         retry_loop srv n (b * 2) name url payload
           (after_429 (elapsed (srv (length (sent w)) url payload)) b name url payload (st, w))"
proof -
  from assms obtain resp where o: "outcome (srv (length (sent w)) url payload) = Inr resp"
    and c: "status_code resp = 429"
    by (auto simp: answers_def split: sum.splits)
  show ?thesis
    using o c by (cases w) (simp add: after_429_def get0_def Let_def)
qed

lemma retry_loop_429s:
  assumes "\<forall>i<k. answers 429 (srv (length (sent w) + i) url payload)" and "k \<le> n"
  shows "\<exists>st1 w1. retry_loop srv n b name url payload (st, w) =
                    retry_loop srv (n - k) (b * 2 ^ k) name url payload (st1, w1)
          \<and> retries st1 = retries st + k
          \<and> error st1 = error st
          \<and> success st1 = success st
          \<and> slept w1 = slept w @ map (\<lambda>i. b * 2 ^ i) [0..<k]
          \<and> sent w1 = sent w @ replicate k (url, payload)
          \<and> get0 (steps st1) name = get0 (steps st) name + (\<Sum>i<k. elapsed (srv (length (sent w) + i) url payload))
          \<and> (\<forall>other. other \<noteq> name \<longrightarrow> steps st1 other = steps st other)
          \<and> perf_counter w1 = perf_counter w + (\<Sum>i<k. elapsed (srv (length (sent w) + i) url payload)) + real (\<Sum>i<k. b * 2 ^ i)"
  using assms
proof (induction k arbitrary: n b st w)
  case 0
  show ?case by (intro exI[of _ st] exI[of _ w]) simp
next
  case (Suc k)
  then obtain n' where n: "n = Suc n'" and kn: "k \<le> n'" by (cases n) auto
  let ?a = "srv (length (sent w)) url payload"
  obtain st0 w0 where sw0: "after_429 (elapsed ?a) b name url payload (st, w) = (st0, w0)"
    by (cases "after_429 (elapsed ?a) b name url payload (st, w)") auto
  have first: "answers 429 ?a" using Suc.prems(1) by (metis add.right_neutral zero_less_Suc)
  have len0: "length (sent w0) = Suc (length (sent w))"
    using sw0 by (auto simp: after_429_def)
  have rest: "\<forall>i<k. answers 429 (srv (length (sent w0) + i) url payload)"
    using Suc.prems(1) len0 by (metis Suc_less_eq add_Suc_shift add_Suc_right)
  from Suc.IH[OF rest kn, of "b * 2" st0] obtain st1 w1 where
    ih: "retry_loop srv n' (b * 2) name url payload (st0, w0) =
          retry_loop srv (n' - k) (b * 2 * 2 ^ k) name url payload (st1, w1)"
      "retries st1 = retries st0 + k" "error st1 = error st0" "success st1 = success st0"
      "slept w1 = slept w0 @ map (\<lambda>i. b * 2 * 2 ^ i) [0..<k]"
      "sent w1 = sent w0 @ replicate k (url, payload)"
      "get0 (steps st1) name = get0 (steps st0) name + (\<Sum>i<k. elapsed (srv (length (sent w0) + i) url payload))"
      "\<forall>other. other \<noteq> name \<longrightarrow> steps st1 other = steps st0 other"
      "perf_counter w1 = perf_counter w0 + (\<Sum>i<k. elapsed (srv (length (sent w0) + i) url payload)) + real (\<Sum>i<k. b * 2 * 2 ^ i)"
    by blast
  have e1: "retry_loop srv n b name url payload (st, w) =
          retry_loop srv (n - Suc k) (b * 2 ^ Suc k) name url payload (st1, w1)"
    using retry_loop_429[of srv w url payload n' b name st] first sw0 ih(1) n by (simp add: mult.assoc)
  have f0: "retries st0 = retries st + 1" "error st0 = error st" "success st0 = success st"
     "slept w0 = slept w @ [b]" "sent w0 = sent w @ [(url, payload)]"
     "get0 (steps st0) name = get0 (steps st) name + elapsed ?a"
     "\<forall>other. other \<noteq> name \<longrightarrow> steps st0 other = steps st other"
     "perf_counter w0 = perf_counter w + elapsed ?a + real b"
    using sw0 by (auto simp: after_429_def get0_def)
  have shift: "(\<Sum>i<Suc k. f i) = f 0 + (\<Sum>i<k. f (Suc i))" for f :: "nat \<Rightarrow> real"
    by (rule sum.lessThan_Suc_shift)
  have shiftn: "(\<Sum>i<Suc k. f i) = f 0 + (\<Sum>i<k. f (Suc i))" for f :: "nat \<Rightarrow> nat"
    by (rule sum.lessThan_Suc_shift)
  have m: "map (\<lambda>i. b * 2 ^ i) [0..<Suc k] = b # map (\<lambda>i. b * 2 * 2 ^ i) [0..<k]"
    by (simp add: upt_rec[of 0 "Suc k"] map_Suc_upt[symmetric] del: upt_Suc) 
  have e2: "retries st1 = retries st + Suc k" using ih(2) f0(1) by simp
  have e3: "error st1 = error st" "success st1 = success st" using ih f0 by simp_all
  have e4: "slept w1 = slept w @ map (\<lambda>i. b * 2 ^ i) [0..<Suc k]"
    using ih(5) f0(4) m by simp
  have e5: "sent w1 = sent w @ replicate (Suc k) (url, payload)"
    using ih(6) f0(5) by (simp add: replicate_app_Cons_same)
  have e6: "get0 (steps st1) name = get0 (steps st) name + (\<Sum>i<Suc k. elapsed (srv (length (sent w) + i) url payload))"
    using ih(7) f0(6) len0 shift[of "\<lambda>i. elapsed (srv (length (sent w) + i) url payload)"]
    by (simp del: sum.lessThan_Suc)
  have e7: "\<forall>other. other \<noteq> name \<longrightarrow> steps st1 other = steps st other"
    using ih(8) f0(7) by simp
  have e8: "perf_counter w1 = perf_counter w + (\<Sum>i<Suc k. elapsed (srv (length (sent w) + i) url payload)) + real (\<Sum>i<Suc k. b * 2 ^ i)"
    using ih(9) f0(8) len0 shift[of "\<lambda>i. elapsed (srv (length (sent w) + i) url payload)"]
      shiftn[of "\<lambda>i. b * 2 ^ i"]
    by (simp add: mult.assoc del: sum.lessThan_Suc)
  show ?case using e1 e2 e3 e4 e5 e6 e7 e8 by blast
qed

lemma leading_429s: "\<exists>k\<le>(n::nat). (\<forall>i<k. P i) \<and> (k = n \<or> \<not> P k)"
proof (induction n)
  case 0
  then show ?case by simp
next
  case (Suc n)
  then obtain k where k: "k \<le> n" "\<forall>i<k. P i" "k = n \<or> \<not> P k" by blast
  show ?case
  proof (cases "k = n \<and> P n")
    case True
    then have "\<forall>i<Suc n. P i" using k(2) by (auto simp: less_Suc_eq)
    then show ?thesis by blast
  next
    case False
    then have "\<not> P k" using k(3) by blast
    then show ?thesis using k(1,2) by (metis le_SucI)
  qed
qed

lemma retry_loop_final:
  assumes "\<not> answers 429 (srv (length (sent w)) url payload)"
  shows "retry_loop srv (Suc n) b name url payload (st, w) =
         after_final (srv (length (sent w)) url payload) name url payload (st, w)"
  using assms
  by (cases w) (auto simp: answers_def after_final_def get0_def Let_def failure_text_def split: sum.splits)


lemma retry_loop_shape:
  "\<exists>k st1 w1. k \<le> n
      \<and> (\<forall>i<k. answers 429 (srv (length (sent w) + i) url payload))
      \<and> retries st1 = retries st + k \<and> error st1 = error st \<and> success st1 = success st
      \<and> slept w1 = slept w @ map (\<lambda>i. b * 2 ^ i) [0..<k]
      \<and> sent w1 = sent w @ replicate k (url, payload)
      \<and> get0 (steps st1) name = get0 (steps st) name + (\<Sum>i<k. elapsed (srv (length (sent w) + i) url payload))
      \<and> (\<forall>other. other \<noteq> name \<longrightarrow> steps st1 other = steps st other)
      \<and> perf_counter w1 = perf_counter w + (\<Sum>i<k. elapsed (srv (length (sent w) + i) url payload))
                             + real (\<Sum>i<k. b * 2 ^ i)
      \<and> (if k = n
          then retry_loop srv n b name url payload (st, w)
                 = (JNull, st1\<lparr>error := Some ''Max retries exceeded (429)''\<rparr>, w1)
          else \<not> answers 429 (srv (length (sent w) + k) url payload)
               \<and> retry_loop srv n b name url payload (st, w)
                 = after_final (srv (length (sent w) + k) url payload) name url payload (st1, w1))"
proof -
  obtain k where k: "k \<le> n" "\<forall>i<k. answers 429 (srv (length (sent w) + i) url payload)"
      "k = n \<or> \<not> answers 429 (srv (length (sent w) + k) url payload)"
    using leading_429s[of n "\<lambda>i. answers 429 (srv (length (sent w) + i) url payload)"] by blast
  from retry_loop_429s[where k=k and srv=srv and w=w and url=url and payload=payload and n=n
        and b=b and name=name and st=st] k(1,2)
  obtain st1 w1 where
    r: "retry_loop srv n b name url payload (st, w) =
          retry_loop srv (n - k) (b * 2 ^ k) name url payload (st1, w1)"
      "retries st1 = retries st + k" "error st1 = error st" "success st1 = success st"
      "slept w1 = slept w @ map (\<lambda>i. b * 2 ^ i) [0..<k]"
      "sent w1 = sent w @ replicate k (url, payload)"
      "get0 (steps st1) name = get0 (steps st) name + (\<Sum>i<k. elapsed (srv (length (sent w) + i) url payload))"
      "\<forall>other. other \<noteq> name \<longrightarrow> steps st1 other = steps st other"
      "perf_counter w1 = perf_counter w + (\<Sum>i<k. elapsed (srv (length (sent w) + i) url payload))
                             + real (\<Sum>i<k. b * 2 ^ i)"
    by blast
  have len1: "length (sent w1) = length (sent w) + k" using r(6) by simp
  have last: "if k = n
          then retry_loop srv n b name url payload (st, w)
                 = (JNull, st1\<lparr>error := Some ''Max retries exceeded (429)''\<rparr>, w1)
          else \<not> answers 429 (srv (length (sent w) + k) url payload)
               \<and> retry_loop srv n b name url payload (st, w)
                 = after_final (srv (length (sent w) + k) url payload) name url payload (st1, w1)"
  proof (cases "k = n")
    case True
    then show ?thesis using r(1) by simp
  next
    case False
    then obtain m where m: "n - k = Suc m" using k(1) by (cases "n - k") auto
    have na: "\<not> answers 429 (srv (length (sent w1)) url payload)"
      using k(3) False len1 by simp
    from retry_loop_final[where srv=srv and w=w1 and url=url and payload=payload and n=m
          and b="b * 2 ^ k" and name=name and st=st1] na
    show ?thesis
      using False r(1) m len1 k(3) by simp
  qed
  show ?thesis
    using k(1) k(2) r(2-9) last by blast
qed


lemma sum_list_upt: "sum_list (map f [0..<k]) = (\<Sum>i<k. f i)" for f :: "nat \<Rightarrow> nat"
  by (simp add: interv_sum_list_conv_sum_set_nat atLeast0LessThan)

text \<open>
  C3. If the endpoint answers the first \<open>k\<close> requests of a step with 429 and \<open>k < 5\<close> and
  it answers the next request with 200 and a body that parses, the step returns the
  parsed body, has incremented the retry counter \<open>k\<close> times and has slept 2, 4, ...,
  doubling, once after each 429, and leaves the error field as it was. If the endpoint
  answers five requests with 429, the step returns nothing and the outcome's error is
  the retry-exhaustion text, after five requests and no more.
\<close>

theorem retry_policy:
  assumes "\<forall>i<k. answers 429 (srv (length (sent w) + i) url payload)"
    and "perform_step_with_retry srv name url payload (st, w) = (res, st', w')"
  shows "(k < 5 \<and> outcome (srv (length (sent w) + k) url payload) = Inr resp
            \<and> status_code resp = 200 \<and> resp_json resp = Inr j
          \<longrightarrow> res = j \<and> retries st' = retries st + k
              \<and> slept w' = slept w @ map (\<lambda>i. 2 * 2 ^ i) [0..<k]
              \<and> error st' = error st
              \<and> sent w' = sent w @ replicate (Suc k) (url, payload))
       \<and> (k = 5
          \<longrightarrow> res = JNull \<and> error st' = Some ''Max retries exceeded (429)''
              \<and> retries st' = retries st + 5
              \<and> slept w' = slept w @ [2, 4, 8, 16, 32]
              \<and> sent w' = sent w @ replicate 5 (url, payload))"
proof -
  have part1: "res = j \<and> retries st' = retries st + k
              \<and> slept w' = slept w @ map (\<lambda>i. 2 * 2 ^ i) [0..<k]
              \<and> error st' = error st
              \<and> sent w' = sent w @ replicate (Suc k) (url, payload)"
    if h: "k < 5 \<and> outcome (srv (length (sent w) + k) url payload) = Inr resp
            \<and> status_code resp = 200 \<and> resp_json resp = Inr j"
  proof -
  from h have kn: "k \<le> 5" by simp
  from retry_loop_429s[where k=k and srv=srv and w=w and url=url and payload=payload and n=5
        and b=2 and name=name and st=st] assms(1) kn
  obtain st1 w1 where
    r: "retry_loop srv 5 2 name url payload (st, w) =
          retry_loop srv (5 - k) (2 * 2 ^ k) name url payload (st1, w1)"
      "retries st1 = retries st + k" "error st1 = error st"
      "slept w1 = slept w @ map (\<lambda>i. 2 * 2 ^ i) [0..<k]"
      "sent w1 = sent w @ replicate k (url, payload)"
    by blast
  obtain m where m: "5 - k = Suc m" using h by (cases "5 - k") auto
  have len1: "length (sent w1) = length (sent w) + k" using r(5) by simp
  have na: "\<not> answers 429 (srv (length (sent w1)) url payload)"
    using h len1 by (simp add: answers_def)
  have fin: "retry_loop srv (5 - k) (2 * 2 ^ k) name url payload (st1, w1)
      = after_final (srv (length (sent w) + k) url payload) name url payload (st1, w1)"
    using retry_loop_final[where srv=srv and w=w1 and url=url and payload=payload and n=m
          and b="2 * 2 ^ k" and name=name and st=st1] na m len1 by simp
  have "(res, st', w') = after_final (srv (length (sent w) + k) url payload) name url payload (st1, w1)"
    using assms(2) r(1) fin by (simp add: perform_step_with_retry_def max_retries_def base_backoff_def)
  then have "res = j \<and> retries st' = retries st1 \<and> error st' = error st1
       \<and> slept w' = slept w1 \<and> sent w' = sent w1 @ [(url, payload)]"
    using h by (simp add: after_final_def Let_def)
  then show ?thesis
    using r(2-5) by (simp add: replicate_append_same)
  qed
  have part2: "res = JNull \<and> error st' = Some ''Max retries exceeded (429)''
              \<and> retries st' = retries st + 5
              \<and> slept w' = slept w @ [2, 4, 8, 16, 32]
              \<and> sent w' = sent w @ replicate 5 (url, payload)"
    if k5: "k = 5"
  proof -
  from retry_loop_429s[where k=5 and srv=srv and w=w and url=url and payload=payload and n=5
        and b=2 and name=name and st=st] assms(1) k5
  obtain st1 w1 where
    r: "retry_loop srv 5 2 name url payload (st, w) =
          retry_loop srv (5 - 5) (2 * 2 ^ 5) name url payload (st1, w1)"
      "retries st1 = retries st + 5" "error st1 = error st"
      "slept w1 = slept w @ map (\<lambda>i. 2 * 2 ^ i) [0..<5]"
      "sent w1 = sent w @ replicate 5 (url, payload)"
    by blast
  have "(res, st', w') = (JNull, st1\<lparr>error := Some ''Max retries exceeded (429)''\<rparr>, w1)"
    using assms(2) r(1) by (simp add: perform_step_with_retry_def max_retries_def base_backoff_def)
  moreover have "map (\<lambda>i. 2 * 2 ^ i) [0..<5] = [2, 4, 8, 16, 32 :: nat]"
    by (simp add: upt_rec[of _ "numeral _"] upt_rec[of _ "Suc _"])
  ultimately show ?thesis
    using r(2-5) by simp
  qed
  show ?thesis using part1 part2 by blast
qed


lemma ex_two_429s:
  "perform_step_with_retry (scripted [too_many, too_many] nonce_reply) ''challenge'' ''u'' (Payload (JObj []))
     (ex_stats, fresh_world)
   = (JObj [(''nonce'', JStr ''n1'')],
      ex_stats\<lparr>steps := [''challenge'' \<mapsto> 5], retries := 2\<rparr>,
      \<lparr>perf_counter = 11, sent = replicate 3 (''u'', Payload (JObj [])), slept = [2, 4]\<rparr>)"
  by (simp add: perform_step_with_retry_def max_retries_def base_backoff_def scripted_def too_many_def
      nonce_reply_def http_reply_def ex_stats_def fresh_world_def eval_nat_numeral)

lemma ex_five_429s:
  "perform_step_with_retry (scripted [] too_many) ''challenge'' ''u'' (Payload (JObj []))
     (ex_stats, fresh_world)
   = (JNull,
      ex_stats\<lparr>steps := [''challenge'' \<mapsto> 5], retries := 5, error := Some ''Max retries exceeded (429)''\<rparr>,
      \<lparr>perf_counter = 67, sent = replicate 5 (''u'', Payload (JObj [])), slept = [2, 4, 8, 16, 32]\<rparr>)"
  by (simp add: perform_step_with_retry_def max_retries_def base_backoff_def scripted_def too_many_def
      http_reply_def ex_stats_def fresh_world_def eval_nat_numeral)


lemma answers_too_many: "answers 429 too_many"
  by (simp add: answers_def too_many_def http_reply_def)

text \<open>The step after two answers of 429, and the step after five.\<close>

theorem retry_policy_witness:
  "fst (perform_step_with_retry (scripted [too_many, too_many] nonce_reply) ''challenge'' ''u''
          (Payload (JObj [])) (ex_stats, fresh_world)) = JObj [(''nonce'', JStr ''n1'')]
   \<and> retries (fst (snd (perform_step_with_retry (scripted [too_many, too_many] nonce_reply) ''challenge'' ''u''
          (Payload (JObj [])) (ex_stats, fresh_world)))) = 2
   \<and> slept (snd (snd (perform_step_with_retry (scripted [too_many, too_many] nonce_reply) ''challenge'' ''u''
          (Payload (JObj [])) (ex_stats, fresh_world)))) = [2, 4]
   \<and> fst (perform_step_with_retry (scripted [] too_many) ''challenge'' ''u''
          (Payload (JObj [])) (ex_stats, fresh_world)) = JNull
   \<and> error (fst (snd (perform_step_with_retry (scripted [] too_many) ''challenge'' ''u''
          (Payload (JObj [])) (ex_stats, fresh_world)))) = Some ''Max retries exceeded (429)''"
proof -
  let ?X = "perform_step_with_retry (scripted [too_many, too_many] nonce_reply) ''challenge'' ''u''
          (Payload (JObj [])) (ex_stats, fresh_world)"
  let ?Y = "perform_step_with_retry (scripted [] too_many) ''challenge'' ''u''
          (Payload (JObj [])) (ex_stats, fresh_world)"
  have h1: "\<forall>i<2. answers 429 (scripted [too_many, too_many] nonce_reply (length (sent fresh_world) + i)
              ''u'' (Payload (JObj [])))"
    by (simp add: scripted_def answers_too_many fresh_world_def less_Suc_eq numeral_2_eq_2)
  have h2: "\<forall>i<5. answers 429 (scripted [] too_many (length (sent fresh_world) + i)
              ''u'' (Payload (JObj [])))"
    by (simp add: scripted_def answers_too_many)
  have x: "?X = (fst ?X, fst (snd ?X), snd (snd ?X))" by simp
  have y: "?Y = (fst ?Y, fst (snd ?Y), snd (snd ?Y))" by simp
  have a: "fst ?X = JObj [(''nonce'', JStr ''n1'')] \<and> retries (fst (snd ?X)) = 2 \<and> slept (snd (snd ?X)) = [2, 4]"
    using retry_policy[where k=2 and srv="scripted [too_many, too_many] nonce_reply" and w=fresh_world
        and url="''u''" and payload="Payload (JObj [])" and name="''challenge''" and st=ex_stats
        and resp="\<lparr>status_code = 200, resp_text = ''{...}'', resp_json = Inr (JObj [(''nonce'', JStr ''n1'')])\<rparr>"
        and j="JObj [(''nonce'', JStr ''n1'')]", OF h1 x]
    by (simp add: scripted_def nonce_reply_def http_reply_def fresh_world_def ex_stats_def
        upt_rec[of _ "numeral _"] upt_rec[of _ "Suc _"])
  have b: "fst ?Y = JNull \<and> error (fst (snd ?Y)) = Some ''Max retries exceeded (429)''"
    using retry_policy[where k=5 and srv="scripted [] too_many" and w=fresh_world
        and url="''u''" and payload="Payload (JObj [])" and name="''challenge''" and st=ex_stats, OF h2 y]
    by simp
  show ?thesis using a b by simp
qed

text \<open>
  A transport fault or an unrecognised status after \<open>k < 5\<close> answers of 429: the step
  returns nothing, this request is the last one it sends, and it does not sleep again.
\<close>

lemma fault_fails_at_once:
  assumes "\<forall>i<k. answers 429 (srv (length (sent w) + i) url payload)" and "k < 5"
    and "faulted (srv (length (sent w) + k) url payload) \<or> unrecognised (srv (length (sent w) + k) url payload)"
    and "perform_step_with_retry srv name url payload (st, w) = (res, st', w')"
  shows "res = JNull
       \<and> sent w' = sent w @ replicate (Suc k) (url, payload)
       \<and> slept w' = slept w @ map (\<lambda>i. 2 * 2 ^ i) [0..<k]
       \<and> retries st' = retries st + k
       \<and> error st' =
           Some (case outcome (srv (length (sent w) + k) url payload) of
                   Inl e \<Rightarrow> py_str e
                 | Inr resp \<Rightarrow> ''HTTP '' @ show_nat (status_code resp) @ '': '' @ take 50 (resp_text resp))"
proof -
  let ?a = "srv (length (sent w) + k) url payload"
  have kn: "k \<le> 5" using assms(2) by simp
  from retry_loop_429s[where k=k and srv=srv and w=w and url=url and payload=payload and n=5
        and b=2 and name=name and st=st] assms(1) kn
  obtain st1 w1 where
    r: "retry_loop srv 5 2 name url payload (st, w) =
          retry_loop srv (5 - k) (2 * 2 ^ k) name url payload (st1, w1)"
      "retries st1 = retries st + k" "error st1 = error st"
      "slept w1 = slept w @ map (\<lambda>i. 2 * 2 ^ i) [0..<k]"
      "sent w1 = sent w @ replicate k (url, payload)"
    by blast
  obtain m where m: "5 - k = Suc m" using assms(2) by (cases "5 - k") auto
  have len1: "length (sent w1) = length (sent w) + k" using r(5) by simp
  have na: "\<not> answers 429 (srv (length (sent w1)) url payload)"
    using assms(3) len1 by (auto simp: answers_def faulted_def unrecognised_def split: sum.splits)
  have fin: "retry_loop srv (5 - k) (2 * 2 ^ k) name url payload (st1, w1)
      = after_final ?a name url payload (st1, w1)"
    using retry_loop_final[where srv=srv and w=w1 and url=url and payload=payload and n=m
          and b="2 * 2 ^ k" and name=name and st=st1] na m len1 by simp
  have eq: "(res, st', w') = after_final ?a name url payload (st1, w1)"
    using assms(4) r(1) fin by (simp add: perform_step_with_retry_def max_retries_def base_backoff_def)
  have "res = JNull \<and> retries st' = retries st1 \<and> slept w' = slept w1
        \<and> sent w' = sent w1 @ [(url, payload)]
        \<and> error st' = Some (case outcome ?a of
                   Inl e \<Rightarrow> py_str e
                 | Inr resp \<Rightarrow> ''HTTP '' @ show_nat (status_code resp) @ '': '' @ take 50 (resp_text resp))"
    using eq assms(3)
    by (auto simp: after_final_def Let_def faulted_def unrecognised_def failure_text_def split: sum.splits)
  then show ?thesis using r(2-5) by (simp add: replicate_append_same)
qed


text \<open>A timeout after one answer of 429.\<close>

lemma fault_fails_at_once_example:
  "perform_step_with_retry (scripted [too_many] (transport_fault 30 ''timed out'')) ''submit'' ''u''
      (RawString ''x'') (ex_stats, fresh_world)
   = (JNull,
      ex_stats\<lparr>steps := [''submit'' \<mapsto> 1], retries := 1, error := Some ''timed out''\<rparr>,
      \<lparr>perf_counter = 33, sent = replicate 2 (''u'', RawString ''x''), slept = [2]\<rparr>)"
proof -
  let ?srv = "scripted [too_many] (transport_fault 30 ''timed out'')"
  let ?X = "perform_step_with_retry ?srv ''submit'' ''u'' (RawString ''x'') (ex_stats, fresh_world)"
  have h1: "\<forall>i<1. answers 429 (?srv (length (sent fresh_world) + i) ''u'' (RawString ''x''))"
    by (simp add: scripted_def answers_too_many fresh_world_def)
  have h2: "faulted (?srv (length (sent fresh_world) + 1) ''u'' (RawString ''x''))
          \<or> unrecognised (?srv (length (sent fresh_world) + 1) ''u'' (RawString ''x''))"
    by (simp add: scripted_def faulted_def transport_fault_def fresh_world_def)
  have x: "?X = (fst ?X, fst (snd ?X), snd (snd ?X))" by simp
  have v: "?X = (JNull,
      ex_stats\<lparr>steps := [''submit'' \<mapsto> 1], retries := 1, error := Some ''timed out''\<rparr>,
      \<lparr>perf_counter = 33, sent = replicate 2 (''u'', RawString ''x''), slept = [2]\<rparr>)"
    by (simp add: perform_step_with_retry_def max_retries_def base_backoff_def scripted_def too_many_def
      transport_fault_def http_reply_def ex_stats_def fresh_world_def eval_nat_numeral)
  have "fst ?X = JNull \<and> error (fst (snd ?X)) = Some ''timed out''"
    using fault_fails_at_once[where k=1 and srv="?srv" and w=fresh_world and url="''u''"
        and payload="RawString ''x''" and name="''submit''" and st=ex_stats, OF h1 _ h2 x]
    by (simp add: scripted_def transport_fault_def fresh_world_def)
  then show ?thesis using v by simp
qed

lemma response_time_429: "answers 429 a \<Longrightarrow> response_time a = elapsed a"
  by (auto simp: answers_def response_time_def split: sum.splits)

lemma after_final_accounting:
  assumes "after_final a name url payload (st1, w1) = (res, st', w')"
  shows "sent w' = sent w1 @ [(url, payload)]"
    "slept w' = slept w1"
    "perf_counter w' = perf_counter w1 + elapsed a"
    "get0 (steps st') name = get0 (steps st1) name + response_time a"
    "\<forall>other. other \<noteq> name \<longrightarrow> steps st' other = steps st1 other"
    "retries st' = retries st1" "success st' = success st1"
  using assms
  by (auto simp: after_final_def Let_def response_time_def get0_def split: sum.splits if_splits)

lemma step_time_accounting:
  assumes "perform_step_with_retry srv name url payload (st, w) = (res, st', w')"
  shows "\<exists>k sl. 0 < k \<and> k \<le> 5
          \<and> sent w' = sent w @ replicate k (url, payload)
          \<and> slept w' = slept w @ sl
          \<and> get0 (steps st') name
              = get0 (steps st) name + (\<Sum>i<k. response_time (srv (length (sent w) + i) url payload))
          \<and> (\<forall>other. other \<noteq> name \<longrightarrow> steps st' other = steps st other)
          \<and> perf_counter w'
              = perf_counter w + (\<Sum>i<k. elapsed (srv (length (sent w) + i) url payload)) + real (sum_list sl)"
proof -
  let ?E = "\<lambda>i. elapsed (srv (length (sent w) + i) url payload)"
  let ?R = "\<lambda>i. response_time (srv (length (sent w) + i) url payload)"
  from retry_loop_shape[where n=5 and srv=srv and w=w and url=url and payload=payload and st=st
      and b=2 and name=name]
  obtain k st1 w1 where k: "k \<le> 5"
      and all429: "\<forall>i<k. answers 429 (srv (length (sent w) + i) url payload)"
      and sl1: "slept w1 = slept w @ map (\<lambda>i. 2 * 2 ^ i) [0..<k]"
      and se1: "sent w1 = sent w @ replicate k (url, payload)"
      and g1: "get0 (steps st1) name = get0 (steps st) name + (\<Sum>i<k. ?E i)"
      and o1: "\<forall>other. other \<noteq> name \<longrightarrow> steps st1 other = steps st other"
      and p1: "perf_counter w1 = perf_counter w + (\<Sum>i<k. ?E i) + real (\<Sum>i<k. 2 * 2 ^ i)"
      and fin: "if k = 5
          then retry_loop srv 5 2 name url payload (st, w)
                 = (JNull, st1\<lparr>error := Some ''Max retries exceeded (429)''\<rparr>, w1)
          else \<not> answers 429 (srv (length (sent w) + k) url payload)
               \<and> retry_loop srv 5 2 name url payload (st, w)
                 = after_final (srv (length (sent w) + k) url payload) name url payload (st1, w1)"
    by blast
  have RE: "(\<Sum>i<k. ?R i) = (\<Sum>i<k. ?E i)"
    using all429 by (intro sum.cong) (auto simp: response_time_429)
  have run: "retry_loop srv 5 2 name url payload (st, w) = (res, st', w')"
    using assms by (simp add: perform_step_with_retry_def max_retries_def base_backoff_def)
  have sls: "real (\<Sum>i<k. 2 * 2 ^ i) = real (sum_list (map (\<lambda>i. 2 * 2 ^ i) [0..<k]))"
    by (simp add: sum_list_upt)
  show ?thesis
  proof (cases "k = 5")
    case True
    then have e: "res = JNull" "st' = st1\<lparr>error := Some ''Max retries exceeded (429)''\<rparr>" "w' = w1"
      using fin run by simp_all
    show ?thesis
      apply (rule exI[of _ 5], rule exI[of _ "map (\<lambda>i. 2 * 2 ^ i) [0..<5]"])
      using e True sl1 se1 g1 o1 p1 RE sls by simp
  next
    case False
    then have af: "after_final (srv (length (sent w) + k) url payload) name url payload (st1, w1) = (res, st', w')"
      using fin run by simp
    note A = after_final_accounting[OF af]
    have k4: "Suc k \<le> 5" using k False by simp
    show ?thesis
      apply (rule exI[of _ "Suc k"], rule exI[of _ "map (\<lambda>i. 2 * 2 ^ i) [0..<k]"])
      using A k4 sl1 se1 g1 o1 p1 RE sls by (simp add: replicate_append_same)
  qed
qed

section \<open>A session in malformed mode\<close>

lemma ex_malformed_payload:
  "\<exists>q. build_malformed_payload ex_libs ex_sim (ex_draws missing_nonce) (JStr ''n1'') = Inr (Payload q)"
  using missing_nonce_result[OF ex_sim_profile, of "ex_draws missing_nonce" ex_libs "''n1''"]
  by (auto simp: ex_draws_def corruption_index_def)

text \<open>
  C4. A malformed session whose submit request is answered with status 400 and the
  body \<^verbatim>\<open>{}\<close>, a parsed response with no \<^verbatim>\<open>ok\<close> field, ends with success = false
  after two requests: the empty dict is false for \<^verbatim>\<open>if res and not res.get("ok")\<close>.
\<close>

theorem empty_rejection_counts_as_failure:
  "success (fst (run_miner_session ex_libs (ex_env (scripted [nonce_reply] empty_rejection) missing_nonce)
                   ex_sim None True fresh_world)) = False
   \<and> length (sent (snd (run_miner_session ex_libs (ex_env (scripted [nonce_reply] empty_rejection) missing_nonce)
                   ex_sim None True fresh_world))) = 2"
proof -
  obtain q where q: "build_malformed_payload ex_libs ex_sim (ex_draws missing_nonce) (JStr ''n1'') = Inr (Payload q)"
    using ex_malformed_payload by blast
  show ?thesis
    by (simp add: run_miner_session_def challenge_stage_def submit_stage_def ex_env_def q
        perform_step_with_retry_def max_retries_def base_backoff_def scripted_def nonce_reply_def
        empty_rejection_def http_reply_def fresh_world_def eval_nat_numeral Let_def)
qed

lemma plain_rejection_counts_as_success:
  "success (fst (run_miner_session ex_libs (ex_env (scripted [nonce_reply] plain_rejection) missing_nonce)
                   ex_sim None True fresh_world)) = True"
proof -
  obtain q where q: "build_malformed_payload ex_libs ex_sim (ex_draws missing_nonce) (JStr ''n1'') = Inr (Payload q)"
    using ex_malformed_payload by blast
  show ?thesis
    by (simp add: run_miner_session_def challenge_stage_def submit_stage_def ex_env_def q
        perform_step_with_retry_def max_retries_def base_backoff_def scripted_def nonce_reply_def
        plain_rejection_def http_reply_def fresh_world_def eval_nat_numeral Let_def)
qed


section \<open>The outcome and the books of a session\<close>

lemma reply_kinds: "fatal a \<or> answers 429 a \<or> parsed_ok a"
  by (auto simp: fatal_def faulted_def unrecognised_def garbled_def answers_def parsed_ok_def
      split: sum.splits)

lemma fatal_not_tolerated: "fatal a \<Longrightarrow> \<not> tolerated a"
  by (auto simp: fatal_def faulted_def unrecognised_def garbled_def answers_def parsed_ok_def tolerated_def
      split: sum.splits)

lemma parsed_ok_not_429: "parsed_ok a \<Longrightarrow> \<not> answers 429 a"
  by (auto simp: answers_def parsed_ok_def split: sum.splits)

lemma after_final_verdict:
  assumes "after_final a name url payload (st1, w1) = (res, st', w')" and "\<not> answers 429 a"
  shows "(fatal a \<and> res = JNull \<and> error st' = Some (failure_text a))
       \<or> (parsed_ok a \<and> accepted a res \<and> error st' = error st1)"
  using assms
  by (auto simp: after_final_def Let_def fatal_def faulted_def unrecognised_def garbled_def answers_def
      parsed_ok_def accepted_def failure_text_def split: sum.splits if_splits)

lemma step_outcome:
  assumes "perform_step_with_retry srv name url payload (st, w) = (res, st', w')"
  shows "\<exists>k. 0 < k \<and> k \<le> 5
          \<and> sent w' = sent w @ replicate k (url, payload)
          \<and> success st' = success st
          \<and> (\<forall>i<k - 1. answers 429 (srv (length (sent w) + i) url payload))
          \<and> ((fatal (srv (length (sent w) + (k - 1)) url payload) \<and> res = JNull
                \<and> error st' = Some (failure_text (srv (length (sent w) + (k - 1)) url payload)))
             \<or> (answers 429 (srv (length (sent w) + (k - 1)) url payload) \<and> k = 5 \<and> res = JNull
                \<and> error st' = Some ''Max retries exceeded (429)'')
             \<or> (parsed_ok (srv (length (sent w) + (k - 1)) url payload)
                \<and> accepted (srv (length (sent w) + (k - 1)) url payload) res \<and> error st' = error st))"
proof -
  from retry_loop_shape[where n=5 and srv=srv and w=w and url=url and payload=payload and st=st
      and b=2 and name=name]
  obtain k st1 w1 where k: "k \<le> 5"
      and all429: "\<forall>i<k. answers 429 (srv (length (sent w) + i) url payload)"
      and er1: "error st1 = error st" and su1: "success st1 = success st"
      and se1: "sent w1 = sent w @ replicate k (url, payload)"
      and fin: "if k = 5
          then retry_loop srv 5 2 name url payload (st, w)
                 = (JNull, st1\<lparr>error := Some ''Max retries exceeded (429)''\<rparr>, w1)
          else \<not> answers 429 (srv (length (sent w) + k) url payload)
               \<and> retry_loop srv 5 2 name url payload (st, w)
                 = after_final (srv (length (sent w) + k) url payload) name url payload (st1, w1)"
    by blast
  have run: "retry_loop srv 5 2 name url payload (st, w) = (res, st', w')"
    using assms by (simp add: perform_step_with_retry_def max_retries_def base_backoff_def)
  show ?thesis
  proof (cases "k = 5")
    case True
    then have e: "res = JNull" "st' = st1\<lparr>error := Some ''Max retries exceeded (429)''\<rparr>" "w' = w1"
      using fin run by simp_all
    have "answers 429 (srv (length (sent w) + (5 - 1)) url payload)"
      using all429 True by simp
    moreover have "\<forall>i<5 - 1. answers 429 (srv (length (sent w) + i) url payload)"
      using all429 True by simp
    ultimately show ?thesis
      using e True se1 su1 by (intro exI[of _ 5]) simp
  next
    case False
    then have af: "after_final (srv (length (sent w) + k) url payload) name url payload (st1, w1) = (res, st', w')"
      and na: "\<not> answers 429 (srv (length (sent w) + k) url payload)"
      using fin run by simp_all
    note V = after_final_verdict[OF af na]
    note A = after_final_accounting[OF af]
    have k4: "Suc k \<le> 5" using k False by simp
    show ?thesis
      using V A(1,7) k4 se1 su1 er1 all429
      by (intro exI[of _ "Suc k"]) (auto simp: replicate_append_same)
  qed
qed


lemma reply_at_old:
  "sent w' = sent w @ extra \<Longrightarrow> i < length (sent w) \<Longrightarrow> reply_at srv w' i = reply_at srv w i"
  by (simp add: reply_at_def nth_append)

lemma reply_at_new:
  "sent w' = sent w @ replicate k (url, payload) \<Longrightarrow> j < k
     \<Longrightarrow> reply_at srv w' (length (sent w) + j) = srv (length (sent w) + j) url payload"
  by (simp add: reply_at_def nth_append)

lemma step_census:
  assumes u: "underway srv (st, w)"
    and run: "perform_step_with_retry srv name url payload (st, w) = (res, st', w')"
  shows "concluded srv (st', w') \<and> \<not> success st' \<and> sent w' \<noteq> []
         \<and> (truthy res \<longrightarrow> underway srv (st', w'))"
proof -
  let ?m = "length (sent w)"
  from step_outcome[OF run] obtain k where k: "0 < k" "k \<le> 5"
    and se: "sent w' = sent w @ replicate k (url, payload)"
    and su: "success st' = success st"
    and pre: "\<forall>i<k - 1. answers 429 (srv (?m + i) url payload)"
    and verdict: "(fatal (srv (?m + (k - 1)) url payload) \<and> res = JNull
                \<and> error st' = Some (failure_text (srv (?m + (k - 1)) url payload)))
             \<or> (answers 429 (srv (?m + (k - 1)) url payload) \<and> k = 5 \<and> res = JNull
                \<and> error st' = Some ''Max retries exceeded (429)'')
             \<or> (parsed_ok (srv (?m + (k - 1)) url payload)
                \<and> accepted (srv (?m + (k - 1)) url payload) res \<and> error st' = error st)"
    by blast
  have ns: "\<not> success st'" using u su by (simp add: underway_def)
  have old: "\<forall>i<?m. tolerated (reply_at srv w i)" using u by (simp add: underway_def)
  have len: "length (sent w') = ?m + k" using se by simp
  have ne: "sent w' \<noteq> []" using len k(1) by auto
  have lastr: "reply_at srv w' (length (sent w') - 1) = srv (?m + (k - 1)) url payload"
    using reply_at_new[OF se, of "k - 1" srv] k(1) len by simp
  have before: "tolerated (reply_at srv w' i)" if "i < length (sent w') - 1" for i
  proof (cases "i < ?m")
    case True
    then show ?thesis using old reply_at_old[OF se True, of srv] by simp
  next
    case False
    then obtain j where j: "i = ?m + j" by (metis le_add_diff_inverse not_less)
    then have jk: "j < k - 1" using that len by simp
    then have "reply_at srv w' i = srv (?m + j) url payload"
      using reply_at_new[OF se, of j srv] j by simp
    then show ?thesis using pre jk by (simp add: tolerated_def)
  qed
  have conc: "concluded srv (st', w')"
    using verdict
  proof (elim disjE)
    assume "fatal (srv (?m + (k - 1)) url payload) \<and> res = JNull
                \<and> error st' = Some (failure_text (srv (?m + (k - 1)) url payload))"
    then show ?thesis
      using ne before ns lastr fatal_not_tolerated[of "srv (?m + (k - 1)) url payload"]
      by (auto simp: concluded_def tolerated_def)
  next
    assume "answers 429 (srv (?m + (k - 1)) url payload) \<and> k = 5 \<and> res = JNull
                \<and> error st' = Some ''Max retries exceeded (429)''"
    then show ?thesis
      using ne before ns lastr fatal_not_tolerated[of "srv (?m + (k - 1)) url payload"]
      by (auto simp: concluded_def tolerated_def)
  next
    assume "parsed_ok (srv (?m + (k - 1)) url payload)
                \<and> accepted (srv (?m + (k - 1)) url payload) res \<and> error st' = error st"
    then show ?thesis
      using ne before ns lastr fatal_not_tolerated[of "srv (?m + (k - 1)) url payload"]
        parsed_ok_not_429[of "srv (?m + (k - 1)) url payload"]
      by (auto simp: concluded_def tolerated_def)
  qed
  have und: "underway srv (st', w')" if t: "truthy res"
  proof -
    from t have "res \<noteq> JNull" by auto
    with verdict have p: "parsed_ok (srv (?m + (k - 1)) url payload)" by blast
    have "tolerated (reply_at srv w' i)" if "i < length (sent w')" for i
    proof (cases "i < length (sent w') - 1")
      case True
      then show ?thesis using before by simp
    next
      case False
      then have "i = length (sent w') - 1" using that by simp
      then show ?thesis using lastr p by (simp add: tolerated_def)
    qed
    then show ?thesis using ns p lastr by (simp add: underway_def)
  qed
  show ?thesis using conc ns ne und by blast
qed

lemma underway_concluded:
  "underway srv (st, w) \<Longrightarrow> sent w \<noteq> [] \<Longrightarrow> concluded srv (st2, w)"
  using fatal_not_tolerated parsed_ok_not_429
  by (auto simp: underway_def concluded_def tolerated_def)

lemma underway_error: "underway srv (st, w) \<Longrightarrow> underway srv (st\<lparr>error := e\<rparr>, w)"
  by (simp add: underway_def)

lemma enroll_census:
  assumes "underway (server env) (st, w)"
  shows "concluded (server env) (enroll_stage L env sim (st, w))"
proof -
  obtain res st1 w1 where run: "perform_step_with_retry (server env) ''enroll'' (node_url env @ ''/epoch/enroll'')
             (Payload (build_enroll_payload sim)) (st, w) = (res, st1, w1)"
    by (metis prod_cases3)
  from step_census[OF assms run] have c: "concluded (server env) (st1, w1)"
    and ne: "sent w1 \<noteq> []" and u: "truthy res \<longrightarrow> underway (server env) (st1, w1)" by simp_all
  show ?thesis
  proof (cases "truthy res")
    case True
    then have "concluded (server env) (st2, w1)" for st2
      using u ne underway_concluded by blast
    then show ?thesis
      by (simp add: enroll_stage_def run True split: sum.splits)
  next
    case False
    then show ?thesis using c by (simp add: enroll_stage_def run)
  qed
qed

lemma submit_census:
  assumes "underway (server env) (st, w)" and "sent w \<noteq> []"
  shows "concluded (server env) (submit_stage L env sim malformed nonce (st, w))"
proof (cases "if malformed then build_malformed_payload L sim (draws env) nonce
            else bind_err (build_attestation_payload L sim (draws env) nonce) (\<lambda>p. Inr (Payload p))")
  case (Inl e)
  have eq: "submit_stage L env sim malformed nonce (st, w) = (fail_with e st, w)"
    unfolding submit_stage_def Inl by simp
  show ?thesis
    unfolding eq using underway_concluded[OF assms] .
next
  case (Inr payload)
  obtain res st1 w1 where run: "perform_step_with_retry (server env) ''submit'' (node_url env @ ''/attest/submit'')
             payload (st, w) = (res, st1, w1)"
    by (metis prod_cases3)
  from step_census[OF assms(1) run] have c: "concluded (server env) (st1, w1)"
    and ne: "sent w1 \<noteq> []" and u: "truthy res \<longrightarrow> underway (server env) (st1, w1)" by simp_all
  show ?thesis
  proof (cases "truthy res")
    case True
    then have any: "concluded (server env) (st2, w1)" for st2
      using u ne underway_concluded by blast
    have en: "concluded (server env) (enroll_stage L env sim (st1, w1))"
      using enroll_census u True by blast
    have eq: "submit_stage L env sim malformed nonce (st, w) =
       (if malformed then
          (case py_get res ''ok'' of
             Inl e \<Rightarrow> (fail_with e st1, w1)
           | Inr ok \<Rightarrow>
               if \<not> truthy ok then
                 (st1\<lparr>success := True, s_notes := Some ''Correctly rejected malformed payload''\<rparr>, w1)
               else (st1, w1))
        else
          (case py_get res ''ok'' of
             Inl e \<Rightarrow> (fail_with e st1, w1)
           | Inr ok \<Rightarrow>
               if \<not> truthy ok then (st1\<lparr>error := Some (''Submit rejected: '' @ py_repr L res)\<rparr>, w1)
               else enroll_stage L env sim (st1, w1)))"
      unfolding submit_stage_def Inr using run True by simp
    show ?thesis
      unfolding eq using any en by (auto split: sum.splits)
  next
    case False
    have eq: "submit_stage L env sim malformed nonce (st, w) = (st1, w1)"
      unfolding submit_stage_def Inr using run False by simp
    show ?thesis unfolding eq using c .
  qed
qed

lemma challenge_census:
  assumes "underway (server env) (st, w)"
  shows "concluded (server env) (challenge_stage L env sim malformed (st, w))"
proof -
  obtain res st1 w1 where run: "perform_step_with_retry (server env) ''challenge'' (node_url env @ ''/attest/challenge'')
             (Payload (JObj [])) (st, w) = (res, st1, w1)"
    by (metis prod_cases3)
  from step_census[OF assms run] have c: "concluded (server env) (st1, w1)"
    and ne: "sent w1 \<noteq> []" and u: "truthy res \<longrightarrow> underway (server env) (st1, w1)" by simp_all
  show ?thesis
  proof (cases "truthy res")
    case True
    then have any: "concluded (server env) (st2, w1)" for st2
      using u ne underway_concluded by blast
    have sub: "concluded (server env) (submit_stage L env sim malformed nonce (st1, w1))" for nonce
      using submit_census u True ne by blast
    have eq: "challenge_stage L env sim malformed (st, w) =
       (case py_get res ''nonce'' of
          Inl e \<Rightarrow> (fail_with e st1, w1)
        | Inr nonce \<Rightarrow> submit_stage L env sim malformed nonce (st1, w1))"
      unfolding challenge_stage_def using run True by simp
    show ?thesis
      unfolding eq using any sub by (auto split: sum.splits)
  next
    case False
    have eq: "challenge_stage L env sim malformed (st, w) = (st1, w1)"
      unfolding challenge_stage_def using run False by simp
    show ?thesis unfolding eq using c .
  qed
qed

lemma concluded_total_time: "concluded srv (st\<lparr>total_time := t\<rparr>, w) = concluded srv (st, w)"
  by (simp add: concluded_def)

lemma session_census:
  assumes "sent w0 = []"
  shows "concluded (server env) (run_miner_session L env sim fid malformed w0)"
proof -
  let ?sim1 = "case fid of None \<Rightarrow> sim | Some f \<Rightarrow> if f \<noteq> [] then sim\<lparr>miner_id := f\<rparr> else sim"
  let ?st0 = "\<lparr>s_miner_id = miner_id ?sim1, success = False, steps = Map.empty, total_time = 0,
                 retries = 0, is_duplicate = (fid \<noteq> None), is_malformed = malformed,
                 s_notes = None, error = None\<rparr>"
  let ?w1 = "w0\<lparr>perf_counter := perf_counter w0 + gate_wait env\<rparr>"
  have u: "underway (server env) (?st0, ?w1)" using assms by (simp add: underway_def)
  obtain st w where r: "challenge_stage L env ?sim1 malformed (?st0, ?w1) = (st, w)"
    by (cases "challenge_stage L env ?sim1 malformed (?st0, ?w1)") auto
  have "concluded (server env) (st, w)" using challenge_census[OF u, of L ?sim1 malformed] r by simp
  then have c: "concluded (server env) (st\<lparr>total_time := perf_counter w - perf_counter w0\<rparr>, w)"
    by (simp add: concluded_total_time)
  have "run_miner_session L env sim fid malformed w0 = (st\<lparr>total_time := perf_counter w - perf_counter w0\<rparr>, w)"
    unfolding run_miner_session_def Let_def r by simp
  then show ?thesis using c by simp
qed

lemma sum_split: "(\<Sum>i<m + k. f i) = (\<Sum>i<m. f i) + (\<Sum>j<k. f (m + j))" for f :: "nat \<Rightarrow> real"
  by (induction k) (simp_all add: add.assoc)

lemma step_url_distinct:
  "a \<in> set step_names \<Longrightarrow> b \<in> set step_names \<Longrightarrow> step_url env a = step_url env b \<Longrightarrow> a = b"
  by (auto simp: step_names_def step_url_def)

lemma get0_other: "steps st' other = steps st other \<Longrightarrow> get0 (steps st') other = get0 (steps st) other"
  by (simp add: get0_def)

lemma elapsed_extend:
  assumes "sent w' = sent w @ replicate k (url, payload)"
  shows "(\<Sum>i<length (sent w'). elapsed (reply_at srv w' i))
         = (\<Sum>i<length (sent w). elapsed (reply_at srv w i))
           + (\<Sum>j<k. elapsed (srv (length (sent w) + j) url payload))"
proof -
  have "(\<Sum>i<length (sent w) + k. elapsed (reply_at srv w' i))
         = (\<Sum>i<length (sent w). elapsed (reply_at srv w' i))
           + (\<Sum>j<k. elapsed (reply_at srv w' (length (sent w) + j)))"
    by (rule sum_split)
  moreover have "(\<Sum>i<length (sent w). elapsed (reply_at srv w' i))
       = (\<Sum>i<length (sent w). elapsed (reply_at srv w i))"
    by (intro sum.cong) (auto simp: reply_at_old[OF assms])
  moreover have "(\<Sum>j<k. elapsed (reply_at srv w' (length (sent w) + j)))
       = (\<Sum>j<k. elapsed (srv (length (sent w) + j) url payload))"
    by (intro sum.cong) (auto simp: reply_at_new[OF assms])
  ultimately show ?thesis using assms by simp
qed

lemma answered_extend:
  assumes "sent w' = sent w @ replicate k (url, payload)"
  shows "answered_time srv w' u
         = answered_time srv w u
           + (if url = u then (\<Sum>j<k. response_time (srv (length (sent w) + j) url payload)) else 0)"
proof -
  let ?g = "\<lambda>v i. if fst (sent v ! i) = u then response_time (reply_at srv v i) else 0"
  have "(\<Sum>i<length (sent w) + k. ?g w' i)
         = (\<Sum>i<length (sent w). ?g w' i) + (\<Sum>j<k. ?g w' (length (sent w) + j))"
    by (rule sum_split)
  moreover have "(\<Sum>i<length (sent w). ?g w' i) = (\<Sum>i<length (sent w). ?g w i)"
    by (intro sum.cong) (auto simp: reply_at_old[OF assms] assms nth_append)
  moreover have "(\<Sum>j<k. ?g w' (length (sent w) + j))
       = (if url = u then (\<Sum>j<k. response_time (srv (length (sent w) + j) url payload)) else 0)"
  proof (cases "url = u")
    case True
    have "(\<Sum>j<k. ?g w' (length (sent w) + j)) = (\<Sum>j<k. response_time (srv (length (sent w) + j) url payload))"
      by (intro sum.cong) (auto simp: reply_at_new[OF assms] assms nth_append True)
    then show ?thesis using True by simp
  next
    case False
    have "(\<Sum>j<k. ?g w' (length (sent w) + j)) = (\<Sum>j<k. 0)"
      by (intro sum.cong) (auto simp: assms nth_append False)
    then show ?thesis using False by simp
  qed
  ultimately show ?thesis using assms by (simp add: answered_time_def)
qed

lemma entry_other:
  assumes se: "sent w' = sent w @ replicate k (step_url env name, payload)"
    and nm: "name \<in> set step_names" and n: "n \<in> set step_names" and False: "n \<noteq> name"
    and o: "\<forall>other. other \<noteq> name \<longrightarrow> steps st' other = steps st other"
    and l2: "\<forall>n\<in>set step_names. get0 (steps st) n = answered_time srv w (step_url env n)"
  shows "get0 (steps st') n = answered_time srv w' (step_url env n)"
proof -
  have ne: "step_url env name \<noteq> step_url env n" using step_url_distinct[OF nm n] False by blast
  have a: "get0 (steps st) n = answered_time srv w (step_url env n)"
    using l2 n by blast
  have "steps st' n = steps st n" using o False by blast
  then have b: "get0 (steps st') n = get0 (steps st) n" by (rule get0_other)
  have c: "answered_time srv w' (step_url env n) = answered_time srv w (step_url env n)"
    using answered_extend[OF se, of srv "step_url env n"] ne by (simp only: simp_thms if_False add_0_right)
  show ?thesis using a b c by linarith
qed


lemma entry_same:
  assumes se: "sent w' = sent w @ replicate k (url, payload)"
    and g: "get0 (steps st') name
              = get0 (steps st) name + (\<Sum>i<k. response_time (srv (length (sent w) + i) url payload))"
    and a: "get0 (steps st) name = answered_time srv w url"
  shows "get0 (steps st') name = answered_time srv w' url"
proof -
  have "answered_time srv w' url = answered_time srv w url
        + (\<Sum>j<k. response_time (srv (length (sent w) + j) url payload))"
    using answered_extend[OF se, of srv url] by (simp only: simp_thms if_True)
  then show ?thesis using g a by linarith
qed

lemma clock_extend:
  assumes se: "sent w' = sent w @ replicate k (url, payload)"
    and sl: "slept w' = slept w @ sl"
    and p: "perf_counter w'
              = perf_counter w + (\<Sum>i<k. elapsed (srv (length (sent w) + i) url payload)) + real (sum_list sl)"
    and l1: "perf_counter w = base + (\<Sum>i<length (sent w). elapsed (reply_at srv w i))
                  + real (sum_list (slept w))"
  shows "perf_counter w' = base + (\<Sum>i<length (sent w'). elapsed (reply_at srv w' i))
                           + real (sum_list (slept w'))"
proof -
  note e = elapsed_extend[OF se, of srv]
  have "real (sum_list (slept w')) = real (sum_list (slept w)) + real (sum_list sl)"
    by (simp only: sl sum_list_append of_nat_add)
  then show ?thesis
    using p l1 e by linarith
qed

lemma ledger_iff:
  "ledger env base (st, w) =
     (perf_counter w = base + (\<Sum>i<length (sent w). elapsed (reply_at (server env) w i))
                           + real (sum_list (slept w))
      \<and> (\<forall>n\<in>set step_names. get0 (steps st) n = answered_time (server env) w (step_url env n)))"
  by (simp only: ledger_def prod.case list_all_iff)

lemma step_ledger:
  assumes led: "ledger env base (st, w)" and nm: "name \<in> set step_names"
    and run: "perform_step_with_retry (server env) name (step_url env name) payload (st, w) = (res, st', w')"
  shows "ledger env base (st', w')"
proof -
  from step_time_accounting[OF run] obtain k sl where
    se: "sent w' = sent w @ replicate k (step_url env name, payload)"
    and sl: "slept w' = slept w @ sl"
    and g: "get0 (steps st') name
              = get0 (steps st) name + (\<Sum>i<k. response_time (server env (length (sent w) + i) (step_url env name) payload))"
    and o: "\<forall>other. other \<noteq> name \<longrightarrow> steps st' other = steps st other"
    and p: "perf_counter w'
              = perf_counter w + (\<Sum>i<k. elapsed (server env (length (sent w) + i) (step_url env name) payload)) + real (sum_list sl)"
    by blast
  have l1: "perf_counter w = base + (\<Sum>i<length (sent w). elapsed (reply_at (server env) w i))
                  + real (sum_list (slept w))"
    and l2: "\<forall>n\<in>set step_names. get0 (steps st) n = answered_time (server env) w (step_url env n)"
    using led unfolding ledger_iff by blast+
  note clock = clock_extend[OF se sl p l1]
  have entry: "get0 (steps st') n = answered_time (server env) w' (step_url env n)"
    if n: "n \<in> set step_names" for n
  proof (cases "n = name")
    case True
    have a: "get0 (steps st) name = answered_time (server env) w (step_url env name)"
      using l2 nm by blast
    show ?thesis unfolding True by (rule entry_same[OF se g a])
  next
    case False
    show ?thesis by (rule entry_other[OF se nm n False o l2])
  qed
  show ?thesis unfolding ledger_iff using clock entry by blast
qed

lemma ledger_updates:
  "ledger env base (st\<lparr>error := e\<rparr>, w) = ledger env base (st, w)"
  "ledger env base (st\<lparr>success := b\<rparr>, w) = ledger env base (st, w)"
  "ledger env base (st\<lparr>s_notes := n\<rparr>, w) = ledger env base (st, w)"
  "ledger env base (st\<lparr>total_time := t\<rparr>, w) = ledger env base (st, w)"
  "ledger env base (fail_with x st, w) = ledger env base (st, w)"
  unfolding ledger_iff fail_with_def by simp_all

lemma step_urls:
  "node_url env @ ''/attest/challenge'' = step_url env ''challenge''"
  "node_url env @ ''/attest/submit'' = step_url env ''submit''"
  "node_url env @ ''/epoch/enroll'' = step_url env ''enroll''"
  by (simp_all add: step_url_def)

lemma step_names_mem:
  "''challenge'' \<in> set step_names" "''submit'' \<in> set step_names" "''enroll'' \<in> set step_names"
  by (simp_all add: step_names_def)

lemma enroll_ledger:
  assumes "ledger env base (st, w)"
  shows "ledger env base (enroll_stage L env sim (st, w))"
proof -
  obtain res st1 w1 where run: "perform_step_with_retry (server env) ''enroll'' (step_url env ''enroll'')
             (Payload (build_enroll_payload sim)) (st, w) = (res, st1, w1)"
    by (cases "perform_step_with_retry (server env) ''enroll'' (step_url env ''enroll'')
             (Payload (build_enroll_payload sim)) (st, w)") auto
  have led1: "ledger env base (st1, w1)"
    by (rule step_ledger[OF assms step_names_mem(3) run])
  have any: "ledger env base (st1\<lparr>error := e\<rparr>, w1)" "ledger env base (st1\<lparr>success := b\<rparr>, w1)"
    "ledger env base (fail_with x st1, w1)" for e b x
    using led1 by (simp_all only: ledger_updates)
  show ?thesis
    unfolding enroll_stage_def step_urls run using led1 any by (auto split: sum.splits)
qed

lemma submit_ledger:
  assumes "ledger env base (st, w)"
  shows "ledger env base (submit_stage L env sim malformed nonce (st, w))"
proof (cases "if malformed then build_malformed_payload L sim (draws env) nonce
            else bind_err (build_attestation_payload L sim (draws env) nonce) (\<lambda>p. Inr (Payload p))")
  case (Inl e)
  have eq: "submit_stage L env sim malformed nonce (st, w) = (fail_with e st, w)"
    unfolding submit_stage_def Inl by simp
  show ?thesis unfolding eq using assms by (simp only: ledger_updates)
next
  case (Inr payload)
  obtain res st1 w1 where run: "perform_step_with_retry (server env) ''submit'' (step_url env ''submit'')
             payload (st, w) = (res, st1, w1)"
    by (cases "perform_step_with_retry (server env) ''submit'' (step_url env ''submit'') payload (st, w)") auto
  have led1: "ledger env base (st1, w1)"
    by (rule step_ledger[OF assms step_names_mem(2) run])
  have any: "ledger env base (st1\<lparr>error := e\<rparr>, w1)"
    "ledger env base (st1\<lparr>success := b, s_notes := n\<rparr>, w1)"
    "ledger env base (fail_with x st1, w1)" for e b n x
    using led1 by (simp_all only: ledger_updates)
  have en: "ledger env base (enroll_stage L env sim (st1, w1))"
    by (rule enroll_ledger[OF led1])
  show ?thesis
    unfolding submit_stage_def Inr step_urls using led1 any en by (auto simp: run split: sum.splits)
qed

lemma challenge_ledger:
  assumes "ledger env base (st, w)"
  shows "ledger env base (challenge_stage L env sim malformed (st, w))"
proof -
  obtain res st1 w1 where run: "perform_step_with_retry (server env) ''challenge'' (step_url env ''challenge'')
             (Payload (JObj [])) (st, w) = (res, st1, w1)"
    by (cases "perform_step_with_retry (server env) ''challenge'' (step_url env ''challenge'')
             (Payload (JObj [])) (st, w)") auto
  have led1: "ledger env base (st1, w1)"
    by (rule step_ledger[OF assms step_names_mem(1) run])
  have any: "ledger env base (fail_with x st1, w1)" for x
    using led1 by (simp_all only: ledger_updates)
  have sub: "ledger env base (submit_stage L env sim malformed nonce (st1, w1))" for nonce
    by (rule submit_ledger[OF led1])
  show ?thesis
    unfolding challenge_stage_def step_urls run using led1 any sub by (auto split: sum.splits)
qed


lemma session_unfold:
  "\<exists>sim1 st0. run_miner_session L env sim fid malformed w0
     = (case challenge_stage L env sim1 malformed (st0, w0\<lparr>perf_counter := perf_counter w0 + gate_wait env\<rparr>) of
          (st, w) \<Rightarrow> (st\<lparr>total_time := perf_counter w - perf_counter w0\<rparr>, w))
     \<and> success st0 = False \<and> steps st0 = Map.empty"
  unfolding run_miner_session_def Let_def by (intro exI conjI) (rule refl, simp_all)

lemma session_ledger:
  assumes "sent w0 = []" and "slept w0 = []"
    and "run_miner_session L env sim fid malformed w0 = (st, w)"
  shows "ledger env (perf_counter w0 + gate_wait env) (st, w)
       \<and> total_time st = perf_counter w - perf_counter w0"
proof -
  from session_unfold[of L env sim fid malformed w0] obtain sim1 st0 where
    u: "run_miner_session L env sim fid malformed w0
     = (case challenge_stage L env sim1 malformed (st0, w0\<lparr>perf_counter := perf_counter w0 + gate_wait env\<rparr>) of
          (st, w) \<Rightarrow> (st\<lparr>total_time := perf_counter w - perf_counter w0\<rparr>, w))"
    and s0: "steps st0 = Map.empty" by blast
  let ?w1 = "w0\<lparr>perf_counter := perf_counter w0 + gate_wait env\<rparr>"
  have init: "ledger env (perf_counter w0 + gate_wait env) (st0, ?w1)"
    unfolding ledger_iff using assms(1,2) s0 by (simp add: get0_def answered_time_def)
  obtain st2 w2 where r: "challenge_stage L env sim1 malformed (st0, ?w1) = (st2, w2)"
    by (cases "challenge_stage L env sim1 malformed (st0, ?w1)") auto
  have l2: "ledger env (perf_counter w0 + gate_wait env) (st2, w2)"
    using challenge_ledger[OF init, of L sim1 malformed] r by simp
  have "run_miner_session L env sim fid malformed w0
          = (st2\<lparr>total_time := perf_counter w2 - perf_counter w0\<rparr>, w2)"
    unfolding u r by simp
  then have "st = st2\<lparr>total_time := perf_counter w2 - perf_counter w0\<rparr>" "w = w2"
    using assms(3) by auto
  then show ?thesis using l2 by (simp add: ledger_updates)
qed

text \<open>
  C10. In the outcome of a session that starts with no request sent and no sleep done,
  the time under each step's name is the sum, over all requests the session sent to
  that step's URL (so over every attempt of the step, those answered 429 included), of
  the round trip of each request that got a response; a request that raised a transport
  fault adds nothing, and no sleep is added. The total time is the wait for the gate
  plus the round trips of all requests, faults included, plus all the backoff sleeps.
\<close>

theorem session_time_accounting:
  assumes "sent w0 = []" and "slept w0 = []"
    and "run_miner_session L env sim fid malformed w0 = (st, w)"
  shows "get0 (steps st) ''challenge'' = answered_time (server env) w (node_url env @ ''/attest/challenge'')
       \<and> get0 (steps st) ''submit'' = answered_time (server env) w (node_url env @ ''/attest/submit'')
       \<and> get0 (steps st) ''enroll'' = answered_time (server env) w (node_url env @ ''/epoch/enroll'')
       \<and> total_time st = gate_wait env + (\<Sum>i<length (sent w). elapsed (reply_at (server env) w i))
                            + real (sum_list (slept w))"
proof -
  from session_ledger[OF assms] have
    l: "ledger env (perf_counter w0 + gate_wait env) (st, w)"
    and t: "total_time st = perf_counter w - perf_counter w0" by blast+
  from l have c: "perf_counter w = perf_counter w0 + gate_wait env
        + (\<Sum>i<length (sent w). elapsed (reply_at (server env) w i)) + real (sum_list (slept w))"
    and e: "\<forall>n\<in>set step_names. get0 (steps st) n = answered_time (server env) w (step_url env n)"
    unfolding ledger_iff by blast+
  have tt: "total_time st = gate_wait env + (\<Sum>i<length (sent w). elapsed (reply_at (server env) w i))
                            + real (sum_list (slept w))"
    using t c by linarith
  show ?thesis
    unfolding step_urls using e step_names_mem tt by blast
qed

text \<open>
  C7. If any request of a session meets a transport fault or a status other than 200,
  400, 403 and 429, that request is the last one the session sends (no retry and no
  later step), the session does not succeed, and the outcome's error field holds the
  text of the fault, or the status with the first 50 characters of the body.
\<close>

theorem fault_ends_session:
  assumes "sent w0 = []"
    and "run_miner_session L env sim fid malformed w0 = (st, w)"
    and "i < length (sent w)"
    and "faulted (reply_at (server env) w i) \<or> unrecognised (reply_at (server env) w i)"
  shows "Suc i = length (sent w) \<and> \<not> success st
       \<and> error st = Some (case outcome (reply_at (server env) w i) of
                            Inl e \<Rightarrow> py_str e
                          | Inr resp \<Rightarrow> ''HTTP '' @ show_nat (status_code resp) @ '': '' @ take 50 (resp_text resp))"
proof -
  let ?a = "reply_at (server env) w i"
  have c: "concluded (server env) (st, w)"
    using session_census[OF assms(1), of env L sim fid malformed] assms(2) by simp
  have f: "fatal ?a" using assms(4) unfolding fatal_def by blast
  then have nt: "\<not> tolerated ?a" by (rule fatal_not_tolerated)
  have pre: "\<forall>j<length (sent w) - 1. tolerated (reply_at (server env) w j)"
    and last: "\<not> fatal (reply_at (server env) w (length (sent w) - 1))
             \<or> (error st = Some (failure_text (reply_at (server env) w (length (sent w) - 1))) \<and> \<not> success st)"
    using c unfolding concluded_def by auto
  have "\<not> i < length (sent w) - 1" using pre nt by blast
  then have i: "i = length (sent w) - 1" using assms(3) by simp
  then have "error st = Some (failure_text ?a) \<and> \<not> success st" using last f by simp
  moreover have "failure_text ?a = (case outcome ?a of
                            Inl e \<Rightarrow> py_str e
                          | Inr resp \<Rightarrow> ''HTTP '' @ show_nat (status_code resp) @ '': '' @ take 50 (resp_text resp))"
    using assms(4) by (auto simp: failure_text_def faulted_def unrecognised_def split: sum.splits)
  ultimately show ?thesis using i assms(3) by simp
qed

lemma exhaustion_ends_session:
  assumes "sent w0 = []"
    and "run_miner_session L env sim fid malformed w0 = (st, w)"
    and "answers 429 (reply_at (server env) w (length (sent w) - 1))"
  shows "error st = Some ''Max retries exceeded (429)'' \<and> \<not> success st"
  using session_census[OF assms(1), of env L sim fid malformed] assms(2,3)
  unfolding concluded_def by auto

lemma ex_wellformed_payload:
  "\<exists>p. build_attestation_payload ex_libs ex_sim (ex_draws c) (JStr ''n1'') = Inr p"
  by (simp add: build_attestation_payload_def report_eq)

lemma ex_session:
  "\<exists>p. run_miner_session ex_libs (ex_env ex_server missing_nonce) ex_sim None False fresh_world
     = (ex_stats\<lparr>steps := [''challenge'' \<mapsto> 4], total_time := 36, retries := 1, error := Some ''timed out''\<rparr>,
        \<lparr>perf_counter = 36,
         sent = [(''http://node/attest/challenge'', Payload (JObj [])),
                 (''http://node/attest/challenge'', Payload (JObj [])),
                 (''http://node/attest/submit'', Payload p)],
         slept = [2]\<rparr>)"
proof -
  obtain p where p: "build_attestation_payload ex_libs ex_sim (ex_draws missing_nonce) (JStr ''n1'') = Inr p"
    using ex_wellformed_payload by blast
  have m: "miner_id ex_sim = ''sim-g4-0a1b2c3d''" by (simp add: ex_sim_def)
  show ?thesis
    by (rule exI[of _ p])
      (simp add: m run_miner_session_def challenge_stage_def submit_stage_def ex_env_def p bind_err_def
        perform_step_with_retry_def max_retries_def base_backoff_def ex_server_def scripted_def nonce_reply_def
        too_many_def transport_fault_def http_reply_def fresh_world_def ex_stats_def
        eval_nat_numeral Let_def)
qed

text \<open>
  A session whose challenge is answered 429 (1 s) and then 200 (3 s), and whose submit
  times out after 30 s: 4 s under challenge, nothing under submit, 36 s in total.
\<close>

theorem session_time_accounting_witness:
  "get0 (steps (fst (run_miner_session ex_libs (ex_env ex_server missing_nonce) ex_sim None False fresh_world)))
      ''challenge'' = 4
   \<and> get0 (steps (fst (run_miner_session ex_libs (ex_env ex_server missing_nonce) ex_sim None False fresh_world)))
      ''submit'' = 0
   \<and> total_time (fst (run_miner_session ex_libs (ex_env ex_server missing_nonce) ex_sim None False fresh_world))
      = 36"
proof -
  obtain p where ev: "run_miner_session ex_libs (ex_env ex_server missing_nonce) ex_sim None False fresh_world
     = (ex_stats\<lparr>steps := [''challenge'' \<mapsto> 4], total_time := 36, retries := 1, error := Some ''timed out''\<rparr>,
        \<lparr>perf_counter = 36,
         sent = [(''http://node/attest/challenge'', Payload (JObj [])),
                 (''http://node/attest/challenge'', Payload (JObj [])),
                 (''http://node/attest/submit'', Payload p)],
         slept = [2]\<rparr>)"
    using ex_session by blast
  have a: "sent fresh_world = []" and b: "slept fresh_world = []" by (simp_all add: fresh_world_def)
  from session_time_accounting[OF a b ev] show ?thesis
    unfolding ev
    by (simp add: answered_time_def reply_at_def response_time_def ex_env_def ex_server_def scripted_def
        too_many_def nonce_reply_def transport_fault_def http_reply_def lessThan_Suc numeral_3_eq_3)
qed

text \<open>The same session: its third request times out and is its last.\<close>

theorem fault_ends_session_witness:
  "error (fst (run_miner_session ex_libs (ex_env ex_server missing_nonce) ex_sim None False fresh_world))
     = Some ''timed out''
   \<and> length (sent (snd (run_miner_session ex_libs (ex_env ex_server missing_nonce) ex_sim None False fresh_world)))
     = 3"
proof -
  obtain p where ev: "run_miner_session ex_libs (ex_env ex_server missing_nonce) ex_sim None False fresh_world
     = (ex_stats\<lparr>steps := [''challenge'' \<mapsto> 4], total_time := 36, retries := 1, error := Some ''timed out''\<rparr>,
        \<lparr>perf_counter = 36,
         sent = [(''http://node/attest/challenge'', Payload (JObj [])),
                 (''http://node/attest/challenge'', Payload (JObj [])),
                 (''http://node/attest/submit'', Payload p)],
         slept = [2]\<rparr>)"
    using ex_session by blast
  let ?w = "\<lparr>perf_counter = 36,
         sent = [(''http://node/attest/challenge'', Payload (JObj [])),
                 (''http://node/attest/challenge'', Payload (JObj [])),
                 (''http://node/attest/submit'', Payload p)],
         slept = [2]\<rparr>"
  have a: "sent fresh_world = []" by (simp add: fresh_world_def)
  have i: "2 < length (sent ?w)" by simp
  have f: "faulted (reply_at (server (ex_env ex_server missing_nonce)) ?w 2)
         \<or> unrecognised (reply_at (server (ex_env ex_server missing_nonce)) ?w 2)"
    by (simp add: faulted_def reply_at_def ex_env_def ex_server_def scripted_def transport_fault_def)
  from fault_ends_session[OF a ev i f] show ?thesis
    unfolding ev
    by (simp add: reply_at_def ex_env_def ex_server_def scripted_def transport_fault_def)
qed


section \<open>The concurrency bound\<close>

lemma inside_requests: "inside (concat (replicate n [Send, Receive]) @ [Release])"
  by (induction n) simp_all

lemma session_ops_orderly: "orderly (session_ops L env sim fid malformed)"
  by (simp add: session_ops_def inside_requests)

lemma session_ops_not_holding: "\<not> holds (session_ops L env sim fid malformed)"
  by (simp add: session_ops_def)

lemma inside_orderly: "inside r \<Longrightarrow> orderly r \<and> holds r"
  by (induction r rule: inside.induct) simp_all

lemma in_flight_holds: "in_flight r \<Longrightarrow> holds r"
  by (cases r rule: in_flight.cases) simp_all

lemma count_update:
  "i < length xs \<Longrightarrow>
     length (filter P (xs[i := y])) + (if P (xs ! i) then 1 else 0)
     = length (filter P xs) + (if P y then 1 else 0)"
proof (induction xs arbitrary: i)
  case Nil
  then show ?case by simp
next
  case (Cons x xs)
  then show ?case by (cases i) auto
qed

lemma gate_init_inv:
  "gate_inv c (gate_init c (map (\<lambda>(env, sim, fid, malformed). session_ops L env sim fid malformed) sessions))"
proof -
  have "filter holds (map (\<lambda>(env, sim, fid, malformed). session_ops L env sim fid malformed) sessions) = []"
    by (auto simp: filter_empty_conv session_ops_not_holding)
  then show ?thesis
    by (auto simp: gate_inv_def gate_init_def list_all_iff session_ops_orderly)
qed


lemma orderly_update:
  "list_all orderly xs \<Longrightarrow> orderly y \<Longrightarrow> list_all orderly (xs[i := y])"
  by (auto simp: list_all_iff dest!: set_update_subset_insert[THEN subsetD])

lemma inside_Send:
  assumes "inside (Send # r)"
  shows "\<exists>r'. r = Receive # r' \<and> inside r'"
proof (cases r)
  case Nil
  then show ?thesis using assms by simp
next
  case (Cons x r')
  then show ?thesis using assms by (cases x) simp_all
qed

lemma gate_step_inv:
  assumes inv: "gate_inv c g" and step: "gate_step i g = Some g'"
  shows "gate_inv c g'"
proof -
  have i: "i < length (pending g)" using step by (auto simp: gate_step_def split: if_splits)
  have ord: "list_all orderly (pending g)"
    and cnt: "permits g + length (filter holds (pending g)) = c"
    using inv by (simp_all add: gate_inv_def)
  have oi: "orderly (pending g ! i)" using ord i by (simp add: list_all_length)
  show ?thesis
  proof (cases "pending g ! i")
    case Nil
    then show ?thesis using step i by (simp add: gate_step_def)
  next
    case (Cons x r)
    show ?thesis
    proof (cases x)
      case Acquire
      then have p: "permits g > 0" and g': "g' = g\<lparr>permits := permits g - 1, pending := (pending g)[i := r]\<rparr>"
        using step i Cons by (auto simp: gate_step_def split: if_splits)
      have ir: "inside r" using oi Cons Acquire by simp
      then have r: "orderly r" "holds r" using inside_orderly by blast+
      have "length (filter holds ((pending g)[i := r])) = length (filter holds (pending g)) + 1"
        using count_update[OF i, of holds r] r(2) Cons Acquire by simp
      then show ?thesis
        using p g' cnt orderly_update[OF ord r(1), of i] by (simp add: gate_inv_def)
    next
      case Send
      then have g': "g' = g\<lparr>pending := (pending g)[i := r]\<rparr>"
        using step i Cons by (auto simp: gate_step_def)
      have "inside (Send # r)" using oi Cons Send by simp
      then obtain r' where rr: "r = Receive # r'" "inside r'"
        using inside_Send by blast
      then have r: "orderly r" "holds r" by simp_all
      have "length (filter holds ((pending g)[i := r])) = length (filter holds (pending g))"
        using count_update[OF i, of holds r] r(2) Cons Send by simp
      then show ?thesis
        using g' cnt orderly_update[OF ord r(1), of i] by (simp add: gate_inv_def)
    next
      case Receive
      then have g': "g' = g\<lparr>pending := (pending g)[i := r]\<rparr>"
        using step i Cons by (auto simp: gate_step_def)
      have "inside r" using oi Cons Receive by simp
      then have r: "orderly r" "holds r" using inside_orderly by blast+
      have "length (filter holds ((pending g)[i := r])) = length (filter holds (pending g))"
        using count_update[OF i, of holds r] r(2) Cons Receive by simp
      then show ?thesis
        using g' cnt orderly_update[OF ord r(1), of i] by (simp add: gate_inv_def)
    next
      case Release
      then have g': "g' = g\<lparr>permits := permits g + 1, pending := (pending g)[i := r]\<rparr>"
        using step i Cons by (auto simp: gate_step_def)
      have "inside (Release # r)" using oi Cons Release by simp
      then have rn: "r = []" by (cases r) auto
      have "length (filter holds ((pending g)[i := r])) + 1 = length (filter holds (pending g))"
        using count_update[OF i, of holds r] rn Cons Release by simp
      then show ?thesis
        using g' cnt orderly_update[OF ord, of r i] rn by (simp add: gate_inv_def)
    qed
  qed
qed

lemma run_schedule_inv:
  "gate_inv c g \<Longrightarrow> run_schedule sched g = Some g' \<Longrightarrow> gate_inv c g'"
proof (induction sched arbitrary: g)
  case Nil
  then show ?case by simp
next
  case (Cons i sched)
  then obtain g1 where s: "gate_step i g = Some g1" and r: "run_schedule sched g1 = Some g'"
    by (auto split: option.splits)
  show ?case using Cons.IH[OF gate_step_inv[OF Cons.prems(1) s] r] .
qed

lemma in_flight_le_holding: "length (filter in_flight xs) \<le> length (filter holds xs)"
  by (induction xs) (auto dest: in_flight_holds)

text \<open>
  C9. Whatever the number of sessions and whatever order the event loop runs them in,
  in every state the run reaches from a semaphore of capacity \<open>concurrency\<close> at most
  \<open>concurrency\<close> sessions have a request in flight: a session sends only between its
  acquire and its release, and the permits held never exceed the capacity.
\<close>

theorem gate_bounds_in_flight:
  assumes "run_schedule sched
             (gate_init concurrency
                (map (\<lambda>(env, sim, fid, malformed). session_ops L env sim fid malformed) sessions))
           = Some g"
  shows "in_flight_count g \<le> concurrency"
proof -
  have "gate_inv concurrency g"
    using run_schedule_inv[OF gate_init_inv assms] .
  then have "length (filter holds (pending g)) \<le> concurrency"
    by (simp add: gate_inv_def)
  then show ?thesis
    using in_flight_le_holding[of "pending g"] by (simp add: in_flight_count_def)
qed


lemma ex_session_ops:
  "session_ops ex_libs (ex_env ex_server missing_nonce) ex_sim None False
   = [Acquire, Send, Receive, Send, Receive, Send, Receive, Release]"
proof -
  from ex_session obtain st w where
    "run_miner_session ex_libs (ex_env ex_server missing_nonce) ex_sim None False fresh_world = (st, w)"
    and "length (sent w) = 3" by fastforce
  then show ?thesis by (simp add: session_ops_def numeral_3_eq_3)
qed

text \<open>
  Two sessions and one permit: after the first session has acquired and sent, one
  request is in flight and the second session cannot acquire.
\<close>

theorem gate_bounds_in_flight_witness:
  "run_schedule [0, 0]
     (gate_init 1 (map (\<lambda>(env, sim, fid, malformed). session_ops ex_libs env sim fid malformed)
        [(ex_env ex_server missing_nonce, ex_sim, None, False),
         (ex_env ex_server missing_nonce, ex_sim, None, False)]))
   = Some \<lparr>permits = 0,
            pending = [[Receive, Send, Receive, Send, Receive, Release],
                       [Acquire, Send, Receive, Send, Receive, Send, Receive, Release]]\<rparr>
   \<and> in_flight_count \<lparr>permits = 0,
            pending = [[Receive, Send, Receive, Send, Receive, Release],
                       [Acquire, Send, Receive, Send, Receive, Send, Receive, Release]]\<rparr> \<le> 1
   \<and> gate_step 1 \<lparr>permits = 0,
            pending = [[Receive, Send, Receive, Send, Receive, Release],
                       [Acquire, Send, Receive, Send, Receive, Send, Receive, Release]]\<rparr> = None"
proof -
  have r: "run_schedule [0, 0]
     (gate_init 1 (map (\<lambda>(env, sim, fid, malformed). session_ops ex_libs env sim fid malformed)
        [(ex_env ex_server missing_nonce, ex_sim, None, False),
         (ex_env ex_server missing_nonce, ex_sim, None, False)]))
   = Some \<lparr>permits = 0,
            pending = [[Receive, Send, Receive, Send, Receive, Release],
                       [Acquire, Send, Receive, Send, Receive, Send, Receive, Release]]\<rparr>"
    by (simp add: ex_session_ops gate_init_def gate_step_def)
  from gate_bounds_in_flight[OF r] show ?thesis
    using r by (simp add: gate_step_def)
qed


section \<open>Further facts about the scenario set-up and the recogniser\<close>

text \<open>Once the simulators are created, a positive duplicate ratio makes the whole run raise.\<close>

lemma run_test_duplicates_raise:
  assumes "collect (map (\<lambda>i. init_simulator L (sim_draws_at R i) None None) [0..<n]) = Inr sims"
    and "0 < r"
  shows "run_test L R n r test_malformed test_epoch_boundary
         = Inl (NameError (''name '' @ quoted ''uuid'' @ '' is not defined''))"
  using assms by (simp add: run_test_def bind_err_def force_ids_positive_ratio)

text \<open>With the malformed mode on, the sessions flagged are those at the indices 0, 5, 10, ...\<close>

lemma assign_all_inside:
  "\<forall>i\<in>set idxs. i < length xs \<Longrightarrow>
     assign_all idxs v xs = Inr (map (\<lambda>j. if j \<in> set idxs then v else xs ! j) [0..<length xs])"
proof (induction idxs arbitrary: xs)
  case Nil
  then show ?case by (simp add: map_nth)
next
  case (Cons i idxs)
  have "\<forall>k\<in>set idxs. k < length (xs[i := v])" using Cons.prems by simp
  from Cons.IH[OF this] show ?case using Cons.prems
    by (auto simp: nth_list_update)
qed

lemma range_by_5_mem: "i \<in> set (range_by_5 n) \<longleftrightarrow> i < n \<and> i mod 5 = 0"
proof
  assume "i \<in> set (range_by_5 n)"
  then obtain k where "i = 5 * k" "k < (n + 4) div 5" by (auto simp: range_by_5_def)
  then show "i < n \<and> i mod 5 = 0" by auto
next
  assume a: "i < n \<and> i mod 5 = 0"
  then have "5 dvd i" by presburger
  then obtain k where k: "i = 5 * k" by (auto elim: dvdE)
  then have "k < (n + 4) div 5" using a by auto
  then show "i \<in> set (range_by_5 n)" using k by (auto simp: range_by_5_def)
qed

lemma malformed_flags_every_fifth:
  "malformed_flags_of n True = Inr (map (\<lambda>i. i mod 5 = 0) [0..<n])"
proof -
  have "\<forall>i\<in>set (range_by_5 n). i < length (replicate n False)"
    by (simp add: range_by_5_mem)
  from assign_all_inside[OF this, of True] show ?thesis
    by (simp add: malformed_flags_of_def range_by_5_mem)
qed

lemma malformed_flags_disabled: "malformed_flags_of n False = Inr (replicate n False)"
  by (simp add: malformed_flags_of_def)

text \<open>The recogniser on some documents and on some texts that are not documents.\<close>

lemma json_recogniser_examples:
  "json_valid ''{}''" "json_valid '' [1, 2.5e-3, true, null, {}] ''" "\<not> json_valid ''[1,]''"
  "\<not> json_valid ''-01''" "\<not> json_valid []"
  "json_valid (dquoted (''a'' @ [CHR 0x5C] @ ''u00e9b''))"
  by code_simp+

end
